theory Spec2Isabelle
  imports Complex_Main "HOL-Library.AList"
begin

section \<open>Python values, errors and the object store\<close>

text \<open>
  The two experiment configurations (\<^verbatim>\<open>object_manip_thor_ppo.py\<close> and
  \<^verbatim>\<open>object_nav_thor_a2c.py\<close>) are embedded as functions over an explicit object
  store.  Every \<^verbatim>\<open>raise\<close> of the interpreter is a value of \<open>py_error\<close>; the
  constructor \<open>ConfigurationError\<close> is the error class the specification names, which no
  statement of the source raises.
\<close>

datatype py_error =
  ZeroDivisionError | IndexError | ValueError | TypeError | OverflowError | ConfigurationError

type_synonym addr = nat

datatype pyval = PNone | PInt int | PStr string | PBool bool | PRef addr | PDiscrete int

type_synonym pydict = "(string \<times> pyval) list"

datatype pyobj = ListObj "string list" | DictObj pydict | SensorsObj

text \<open>
  The store: \<open>heap\<close> holds the list and dictionary objects (an address is an index into
  it, allocation appends), \<open>stdout\<close> the lines printed so far.
\<close>

record world =
  heap :: "pyobj list"
  stdout :: "string list"

text \<open>
  The class attributes read by the sampler-argument methods.  The mutable ones
  (\<^verbatim>\<open>OBJECT_TYPES\<close>, the three scene lists, \<^verbatim>\<open>SENSORS\<close>, \<^verbatim>\<open>ENV_ARGS\<close>) are
  addresses of objects in the store.  \<open>SCENE_PERIOD\<close> exists in the navigation class only;
  \<open>num_actions\<close> stands for the length of the task's action-name list, which is defined
  outside these files.
\<close>

record experiment_config =
  OBJECT_TYPES :: addr
  TRAIN_SCENES :: addr
  VALID_SCENES :: addr
  TEST_SCENES :: addr
  SENSORS :: addr
  ENV_ARGS :: addr
  MAX_STEPS :: int
  SCENE_PERIOD :: int
  VALID_SAMPLES_IN_SCENE :: int
  TEST_SAMPLES_IN_SCENE :: int
  num_actions :: int

definition alloc :: "pyobj \<Rightarrow> world \<Rightarrow> addr \<times> world" where
  "alloc obj w = (length (heap w), w\<lparr>heap := heap w @ [obj]\<rparr>)"

definition list_at :: "world \<Rightarrow> addr \<Rightarrow> string list option" where
  "list_at w a =
     (if a < length (heap w)
      then (case heap w ! a of ListObj xs \<Rightarrow> Some xs | DictObj d \<Rightarrow> None | SensorsObj \<Rightarrow> None)
      else None)"

definition dict_at :: "world \<Rightarrow> addr \<Rightarrow> pydict option" where
  "dict_at w a =
     (if a < length (heap w)
      then (case heap w ! a of ListObj xs \<Rightarrow> None | DictObj d \<Rightarrow> Some d | SensorsObj \<Rightarrow> None)
      else None)"

definition print_line :: "string \<Rightarrow> world \<Rightarrow> world" where
  "print_line s w = w\<lparr>stdout := stdout w @ [s]\<rparr>"

definition warn_divisible :: string where
  "warn_divisible =
     ''Warning: oversampling some of the scenes to feed all processes.'' @
     '' You can avoid this by setting a number of workers divisible by the number of scenes''"

definition warn_divisor :: string where
  "warn_divisor =
     ''Warning: oversampling some of the scenes to feed all processes.'' @
     '' You can avoid this by setting a number of workers divisor of the number of scenes''"

section \<open>Lists, slices and string formatting\<close>

text \<open>Indexing a list or an array: a negative index counts from the end.\<close>

definition py_getitem :: "'a list \<Rightarrow> int \<Rightarrow> py_error + 'a" where
  "py_getitem xs i =
     (let n = int (length xs); j = (if i < 0 then i + n else i)
      in if 0 \<le> j \<and> j < n then Inr (xs ! nat j) else Inl IndexError)"

definition slice_bound :: "nat \<Rightarrow> int \<Rightarrow> nat" where
  "slice_bound n i = (if i < 0 then nat (max (i + int n) 0) else min (nat i) n)"

text \<open>\<^verbatim>\<open>xs[lo:hi]\<close>, an omitted bound being \<open>None\<close>.\<close>

definition py_slice :: "'a list \<Rightarrow> int option \<Rightarrow> int option \<Rightarrow> 'a list" where
  "py_slice xs lo hi =
     (let n = length xs;
          a = (case lo of None \<Rightarrow> 0 | Some i \<Rightarrow> slice_bound n i);
          b = (case hi of None \<Rightarrow> n | Some j \<Rightarrow> slice_bound n j)
      in take (b - a) (drop a xs))"

text \<open>\<^verbatim>\<open>xs * k\<close>: a new list; empty for \<open>k \<le> 0\<close>.\<close>

definition py_list_mul :: "'a list \<Rightarrow> int \<Rightarrow> 'a list" where
  "py_list_mul xs k = concat (replicate (nat k) xs)"

function str_nat :: "nat \<Rightarrow> string" where
  "str_nat n =
     (if n < 10 then [''0123456789'' ! n]
      else str_nat (n div 10) @ [''0123456789'' ! (n mod 10)])"
  by pat_completeness auto
termination
  by (relation "measure id") auto

declare str_nat.simps [simp del]

text \<open>\<^verbatim>\<open>"%d" % i\<close>.\<close>

definition fmt_d :: "int \<Rightarrow> string" where
  "fmt_d i = (if i < 0 then CHR ''-'' # str_nat (nat (- i)) else str_nat (nat i))"

section \<open>Double-precision arithmetic\<close>

text \<open>
  \<^verbatim>\<open>np.linspace\<close> and the true division \<^verbatim>\<open>total_processes / len(scenes)\<close> compute in
  IEEE binary64.  A double is modelled by the real number it denotes, and every
  arithmetic operation by the exact operation followed by \<open>fl64\<close>, rounding to the nearest
  number with a 53-bit significand, ties to even.  \<open>fl64\<close> itself has no overflow and no
  subnormal numbers; the one operation of the source that can leave the range of the
  doubles, the true division, checks for it (\<open>py_truediv\<close> below).  Memory is not
  modelled: a list of the model has any length.

  \<open>binexp x\<close> is the binary exponent of a positive \<open>x\<close>: \<open>2 powi binexp x \<le> x < 2 powi (binexp x + 1)\<close>.
  \<open>rint\<close> is \<^verbatim>\<open>np.round\<close> at zero decimals: round half to even.
\<close>

definition rint :: "real \<Rightarrow> int" where
  "rint x =
     (let f = \<lfloor>x\<rfloor>; d = x - of_int f
      in if d < 1 / 2 then f else if 1 / 2 < d then f + 1 else if even f then f else f + 1)"

function binexp :: "real \<Rightarrow> int" where
  "binexp x =
     (if x < 1 then (if 0 < x then binexp (2 * x) - 1 else 0)
      else if x < 2 then 0 else binexp (x / 2) + 1)"
  by pat_completeness auto
termination
proof (relation "measure (\<lambda>x. if 1 \<le> x then nat \<lfloor>x\<rfloor> else nat \<lceil>1 / x\<rceil> + 2)", goal_cases)
  case 1
  show ?case by simp
next
  case (2 x)
  show ?case
  proof (cases "1 \<le> 2 * x")
    case True
    have "\<lfloor>2 * x\<rfloor> = 1" using True 2 by linarith
    then show ?thesis using True 2 by simp
  next
    case False
    define t where "t = 1 / x"
    have t: "2 < t" using False 2 by (simp add: t_def field_simps)
    have e: "1 / (2 * x) = t / 2" by (simp add: t_def)
    have "of_int \<lceil>t / 2\<rceil> < t / 2 + 1" by linarith
    also have "\<dots> \<le> t" using t by linarith
    also have "\<dots> \<le> of_int \<lceil>t\<rceil>" by linarith
    finally have "\<lceil>t / 2\<rceil> < \<lceil>t\<rceil>" by simp
    then have "\<lceil>1 / (2 * x)\<rceil> < \<lceil>1 / x\<rceil>" by (simp only: e t_def)
    moreover have "0 < \<lceil>1 / x\<rceil>" using 2 by simp
    ultimately show ?thesis using False 2 by simp
  qed
next
  case (3 x)
  then have "2 \<le> x" by simp
  then have "\<lfloor>x / 2\<rfloor> < \<lfloor>x\<rfloor>" by linarith
  moreover have "1 \<le> x / 2" using \<open>2 \<le> x\<close> by simp
  ultimately show ?case using \<open>2 \<le> x\<close> by simp
qed

declare binexp.simps [simp del]

definition fl64 :: "real \<Rightarrow> real" where
  "fl64 x =
     (if x = 0 then 0
      else let q = 2 powi (binexp \<bar>x\<bar> - 52) in of_int (rint (x / q)) * q)"

text \<open>
  \<^verbatim>\<open>np.linspace(start, stop, num, endpoint=True)\<close>: a negative \<open>num\<close> raises, the
  samples are \<open>i * step + start\<close> with \<open>step = (stop - start) / (num - 1)\<close>, and the last
  sample is overwritten with \<open>stop\<close>.
\<close>

definition linspace :: "real \<Rightarrow> real \<Rightarrow> int \<Rightarrow> py_error + real list" where
  "linspace start stop num =
     (if num < 0 then Inl ValueError
      else
        let divisor = num - 1;
            delta = fl64 (stop - start);
            step = fl64 (delta / of_int divisor);
            y = map (\<lambda>i. fl64
                  ((if 0 < divisor
                    then (if step = 0 then fl64 (fl64 (of_nat i / of_int divisor) * delta)
                          else fl64 (of_nat i * step))
                    else fl64 (of_nat i * delta)) + start)) [0..<nat num]
        in Inr (if 1 < num then y[nat divisor := stop] else y))"

text \<open>
  The cast of an integer-valued double to \<^verbatim>\<open>np.int32\<close>.  A value outside the 32-bit
  range does not raise: the conversion yields the smallest 32-bit integer.
\<close>

definition astype_int32 :: "int \<Rightarrow> int" where
  "astype_int32 v =
     (if - 2147483648 \<le> v \<and> v < 2147483648 then v else - 2147483648)"

definition partition_inds :: "int \<Rightarrow> int \<Rightarrow> py_error + int list" where
  "partition_inds n num_parts =
     (case linspace 0 (of_int n) (num_parts + 1) of
        Inl e \<Rightarrow> Inl e
      | Inr y \<Rightarrow> Inr (map (\<lambda>v. astype_int32 (rint v)) y))"

section \<open>Splitting the scenes among the processes\<close>

text \<open>
  The true division \<^verbatim>\<open>a / b\<close> of two integers: the quotient rounded to a double, with
  \<open>OverflowError\<close> when the rounded quotient is beyond the largest double.
\<close>

definition py_truediv :: "int \<Rightarrow> int \<Rightarrow> py_error + real" where
  "py_truediv a b =
     (if b = 0 then Inl ZeroDivisionError
      else let q = fl64 (of_int a / of_int b)
           in if 2 ^ 1024 \<le> \<bar>q\<bar> then Inl OverflowError else Inr q)"

text \<open>
  The \<^verbatim>\<open>if\<close>/\<^verbatim>\<open>else\<close> at the head of \<^verbatim>\<open>_get_sampler_args_for_scene_split\<close>.  The
  result is the object the local name \<^verbatim>\<open>scenes\<close> is bound to afterwards: in the
  oversampling branch \<^verbatim>\<open>scenes * k\<close> and the slice each build a new list.
\<close>

definition scenes_for_processes :: "addr \<Rightarrow> int \<Rightarrow> world \<Rightarrow> (py_error + addr) \<times> world" where
  "scenes_for_processes scenes total_processes w =
     (case list_at w scenes of
        None \<Rightarrow> (Inl TypeError, w)
      | Some xs \<Rightarrow>
          if int (length xs) < total_processes then
            if length xs = 0 then (Inl ZeroDivisionError, w)
            else
              let w1 = (if total_processes mod int (length xs) \<noteq> 0
                        then print_line warn_divisible w else w)
              in case py_truediv total_processes (int (length xs)) of
                   Inl e \<Rightarrow> (Inl e, w1)
                 | Inr q \<Rightarrow>
                     let ys = py_list_mul xs \<lceil>q\<rceil>;
                         (a1, w2) = alloc (ListObj ys) w1;
                         zs = py_slice ys None
                                (Some (total_processes * (int (length ys) div total_processes)));
                         (a2, w3) = alloc (ListObj zs) w2
                     in (Inr a2, w3)
          else
            if total_processes = 0 then (Inl ZeroDivisionError, w)
            else (Inr scenes,
                  if int (length xs) mod total_processes \<noteq> 0
                  then print_line warn_divisor w else w))"

text \<open>\<^verbatim>\<open>seeds[process_ind] if seeds is not None else None\<close>\<close>

definition seed_for :: "int list option \<Rightarrow> int \<Rightarrow> py_error + pyval" where
  "seed_for seeds process_ind =
     (case seeds of
        None \<Rightarrow> Inr PNone
      | Some s \<Rightarrow> (case py_getitem s process_ind of Inl e \<Rightarrow> Inl e | Inr v \<Rightarrow> Inr (PInt v)))"

definition get_sampler_args_for_scene_split ::
  "experiment_config \<Rightarrow> addr \<Rightarrow> int \<Rightarrow> int \<Rightarrow> int list option \<Rightarrow> bool \<Rightarrow> world
     \<Rightarrow> (py_error + pydict) \<times> world" where
  "get_sampler_args_for_scene_split cls scenes process_ind total_processes seeds
       deterministic_cudnn w =
     (case scenes_for_processes scenes total_processes w of
        (Inl e, w1) \<Rightarrow> (Inl e, w1)
      | (Inr scenes1, w1) \<Rightarrow>
         (case list_at w1 scenes1 of
            None \<Rightarrow> (Inl TypeError, w1)
          | Some xs \<Rightarrow>
             (case partition_inds (int (length xs)) total_processes of
                Inl e \<Rightarrow> (Inl e, w1)
              | Inr inds \<Rightarrow>
                 (case py_getitem inds process_ind of
                    Inl e \<Rightarrow> (Inl e, w1)
                  | Inr lo \<Rightarrow>
                     (case py_getitem inds (process_ind + 1) of
                        Inl e \<Rightarrow> (Inl e, w1)
                      | Inr hi \<Rightarrow>
                         let (a, w2) = alloc (ListObj (py_slice xs (Some lo) (Some hi))) w1
                         in (case seed_for seeds process_ind of
                               Inl e \<Rightarrow> (Inl e, w2)
                             | Inr sd \<Rightarrow>
                                (Inr [(''scenes'', PRef a),
                                      (''object_types'', PRef (OBJECT_TYPES cls)),
                                      (''env_args'', PRef (ENV_ARGS cls)),
                                      (''max_steps'', PInt (MAX_STEPS cls)),
                                      (''sensors'', PRef (SENSORS cls)),
                                      (''action_space'', PDiscrete (num_actions cls)),
                                      (''seed'', sd),
                                      (''deterministic_cudnn'', PBool deterministic_cudnn)],
                                 w2)))))))"

text \<open>The scene list a process is handed, read back through the returned dictionary.\<close>

definition assigned_scenes ::
  "experiment_config \<Rightarrow> addr \<Rightarrow> int \<Rightarrow> int \<Rightarrow> world \<Rightarrow> string list option" where
  "assigned_scenes cls scenes process_ind total_processes w =
     (case get_sampler_args_for_scene_split cls scenes process_ind total_processes None False w of
        (Inl e, w1) \<Rightarrow> None
      | (Inr res, w1) \<Rightarrow>
         (case map_of res ''scenes'' of
            Some (PRef r) \<Rightarrow> list_at w1 r
          | Some PNone \<Rightarrow> None | Some (PInt i) \<Rightarrow> None | Some (PStr s) \<Rightarrow> None
          | Some (PBool b) \<Rightarrow> None | Some (PDiscrete n) \<Rightarrow> None
          | None \<Rightarrow> None))"

section \<open>The task-sampler arguments\<close>

text \<open>
  The display expression of the manipulation class,
  \<^verbatim>\<open>("0.%d" % devices[process_ind % len(devices)]) if len(devices) > 0 else None\<close>,
  and of the navigation class,
  \<^verbatim>\<open>"0.%d" % devices[0] if len(devices) > 0 else None\<close>.  The condition is evaluated
  first, and \<^verbatim>\<open>len(None)\<close> raises.
\<close>

definition manip_x_display :: "int list option \<Rightarrow> int \<Rightarrow> py_error + pyval" where
  "manip_x_display devices process_ind =
     (case devices of
        None \<Rightarrow> Inl TypeError
      | Some ds \<Rightarrow>
          if 0 < length ds
          then (case py_getitem ds (process_ind mod int (length ds)) of
                  Inl e \<Rightarrow> Inl e
                | Inr d \<Rightarrow> Inr (PStr (''0.'' @ fmt_d d)))
          else Inr PNone)"

definition nav_x_display :: "int list option \<Rightarrow> py_error + pyval" where
  "nav_x_display devices =
     (case devices of
        None \<Rightarrow> Inl TypeError
      | Some ds \<Rightarrow>
          if 0 < length ds
          then (case py_getitem ds 0 of
                  Inl e \<Rightarrow> Inl e
                | Inr d \<Rightarrow> Inr (PStr (''0.'' @ fmt_d d)))
          else Inr PNone)"

text \<open>
  \<^verbatim>\<open>d[k] = v\<close> and \<^verbatim>\<open>d.update(src)\<close> on the dictionary objects at the given
  addresses.  An address that holds no dictionary cannot arise from the class
  definitions; the model answers \<open>TypeError\<close> there.
\<close>

definition dict_setitem :: "addr \<Rightarrow> string \<Rightarrow> pyval \<Rightarrow> world \<Rightarrow> (py_error + unit) \<times> world" where
  "dict_setitem a k v w =
     (case dict_at w a of
        None \<Rightarrow> (Inl TypeError, w)
      | Some d \<Rightarrow> (Inr (), w\<lparr>heap := (heap w)[a := DictObj (AList.update k v d)]\<rparr>))"

definition dict_update_from :: "addr \<Rightarrow> addr \<Rightarrow> world \<Rightarrow> (py_error + unit) \<times> world" where
  "dict_update_from a b w =
     (case dict_at w a of
        None \<Rightarrow> (Inl TypeError, w)
      | Some d \<Rightarrow>
         (case dict_at w b of
            None \<Rightarrow> (Inl TypeError, w)
          | Some src \<Rightarrow>
             (Inr (),
              w\<lparr>heap := (heap w)[a := DictObj (foldl (\<lambda>acc (k, v). AList.update k v acc) d src)]\<rparr>)))"

text \<open>\<^verbatim>\<open>len(res["scenes"])\<close>\<close>

definition len_scenes :: "pydict \<Rightarrow> world \<Rightarrow> py_error + int" where
  "len_scenes res w =
     (case map_of res ''scenes'' of
        Some (PRef r) \<Rightarrow>
          (case list_at w r of Some xs \<Rightarrow> Inr (int (length xs)) | None \<Rightarrow> Inl TypeError)
      | _ \<Rightarrow> Inl TypeError)"

text \<open>
  The last statements of the three methods of the manipulation class:
  \<^verbatim>\<open>res["env_args"] = {}\<close>, \<^verbatim>\<open>res["env_args"].update(self.ENV_ARGS)\<close>,
  \<^verbatim>\<open>res["env_args"]["x_display"] = ...\<close>, \<^verbatim>\<open>return res\<close>.
\<close>

definition manip_env_args ::
  "experiment_config \<Rightarrow> int \<Rightarrow> int list option \<Rightarrow> pydict \<Rightarrow> world \<Rightarrow> (py_error + pydict) \<times> world" where
  "manip_env_args cls process_ind devices res w =
     (let (a, w1) = alloc (DictObj []) w;
          res1 = AList.update ''env_args'' (PRef a) res
      in case dict_update_from a (ENV_ARGS cls) w1 of
           (Inl e, w2) \<Rightarrow> (Inl e, w2)
         | (Inr u, w2) \<Rightarrow>
            (case manip_x_display devices process_ind of
               Inl e \<Rightarrow> (Inl e, w2)
             | Inr v \<Rightarrow>
                (case dict_setitem a ''x_display'' v w2 of
                   (Inl e, w3) \<Rightarrow> (Inl e, w3)
                 | (Inr u1, w3) \<Rightarrow> (Inr res1, w3))))"

text \<open>
  The last statements of the three methods of the navigation class:
  \<^verbatim>\<open>res["env_args"]["x_display"] = ...\<close>, \<^verbatim>\<open>return res\<close>.  Here
  \<^verbatim>\<open>res["env_args"]\<close> is still the object \<^verbatim>\<open>self.ENV_ARGS\<close>.
\<close>

definition nav_env_args ::
  "int list option \<Rightarrow> pydict \<Rightarrow> world \<Rightarrow> (py_error + pydict) \<times> world" where
  "nav_env_args devices res w =
     (case nav_x_display devices of
        Inl e \<Rightarrow> (Inl e, w)
      | Inr v \<Rightarrow>
         (case map_of res ''env_args'' of
            Some (PRef a) \<Rightarrow>
              (case dict_setitem a ''x_display'' v w of
                 (Inl e, w1) \<Rightarrow> (Inl e, w1)
               | (Inr u, w1) \<Rightarrow> (Inr res, w1))
          | _ \<Rightarrow> (Inl TypeError, w)))"

text \<open>\<^verbatim>\<open>res["max_tasks"] = samples * len(res["scenes"])\<close>\<close>

definition set_max_tasks :: "int \<Rightarrow> pydict \<Rightarrow> world \<Rightarrow> py_error + pydict" where
  "set_max_tasks samples res w =
     (case len_scenes res w of
        Inl e \<Rightarrow> Inl e
      | Inr n \<Rightarrow> Inr (AList.update ''max_tasks'' (PInt (samples * n)) res))"

subsection \<open>\<^verbatim>\<open>ObjectManipThorPPOExperimentConfig\<close>\<close>

definition manip_train_task_sampler_args ::
  "experiment_config \<Rightarrow> int \<Rightarrow> int \<Rightarrow> int list option \<Rightarrow> int list option \<Rightarrow> bool \<Rightarrow> world
     \<Rightarrow> (py_error + pydict) \<times> world" where
  "manip_train_task_sampler_args cls process_ind total_processes devices seeds
       deterministic_cudnn w =
     (case get_sampler_args_for_scene_split cls (TRAIN_SCENES cls) process_ind total_processes
             seeds deterministic_cudnn w of
        (Inl e, w1) \<Rightarrow> (Inl e, w1)
      | (Inr res, w1) \<Rightarrow>
          manip_env_args cls process_ind devices
            (AList.update ''scene_period'' (PStr ''manual'') res) w1)"

definition manip_valid_task_sampler_args ::
  "experiment_config \<Rightarrow> int \<Rightarrow> int \<Rightarrow> int list option \<Rightarrow> int list option \<Rightarrow> bool \<Rightarrow> world
     \<Rightarrow> (py_error + pydict) \<times> world" where
  "manip_valid_task_sampler_args cls process_ind total_processes devices seeds
       deterministic_cudnn w =
     (case get_sampler_args_for_scene_split cls (VALID_SCENES cls) process_ind total_processes
             seeds deterministic_cudnn w of
        (Inl e, w1) \<Rightarrow> (Inl e, w1)
      | (Inr res, w1) \<Rightarrow>
         (case set_max_tasks (VALID_SAMPLES_IN_SCENE cls)
                 (AList.update ''scene_period'' (PInt (VALID_SAMPLES_IN_SCENE cls)) res) w1 of
            Inl e \<Rightarrow> (Inl e, w1)
          | Inr res1 \<Rightarrow> manip_env_args cls process_ind devices res1 w1))"

definition manip_test_task_sampler_args ::
  "experiment_config \<Rightarrow> int \<Rightarrow> int \<Rightarrow> int list option \<Rightarrow> int list option \<Rightarrow> bool \<Rightarrow> world
     \<Rightarrow> (py_error + pydict) \<times> world" where
  "manip_test_task_sampler_args cls process_ind total_processes devices seeds
       deterministic_cudnn w =
     (case get_sampler_args_for_scene_split cls (TEST_SCENES cls) process_ind total_processes
             seeds deterministic_cudnn w of
        (Inl e, w1) \<Rightarrow> (Inl e, w1)
      | (Inr res, w1) \<Rightarrow>
         (case set_max_tasks (TEST_SAMPLES_IN_SCENE cls)
                 (AList.update ''scene_period'' (PInt (TEST_SAMPLES_IN_SCENE cls)) res) w1 of
            Inl e \<Rightarrow> (Inl e, w1)
          | Inr res1 \<Rightarrow> manip_env_args cls process_ind devices res1 w1))"

subsection \<open>\<^verbatim>\<open>ObjectNavThorPPOExperimentConfig\<close>\<close>

definition nav_train_task_sampler_args ::
  "experiment_config \<Rightarrow> int \<Rightarrow> int \<Rightarrow> int list option \<Rightarrow> int list option \<Rightarrow> bool \<Rightarrow> world
     \<Rightarrow> (py_error + pydict) \<times> world" where
  "nav_train_task_sampler_args cls process_ind total_processes devices seeds
       deterministic_cudnn w =
     (case get_sampler_args_for_scene_split cls (TRAIN_SCENES cls) process_ind total_processes
             seeds deterministic_cudnn w of
        (Inl e, w1) \<Rightarrow> (Inl e, w1)
      | (Inr res, w1) \<Rightarrow>
          nav_env_args devices (AList.update ''scene_period'' (PInt (SCENE_PERIOD cls)) res) w1)"

definition nav_valid_task_sampler_args ::
  "experiment_config \<Rightarrow> int \<Rightarrow> int \<Rightarrow> int list option \<Rightarrow> int list option \<Rightarrow> bool \<Rightarrow> world
     \<Rightarrow> (py_error + pydict) \<times> world" where
  "nav_valid_task_sampler_args cls process_ind total_processes devices seeds
       deterministic_cudnn w =
     (case get_sampler_args_for_scene_split cls (VALID_SCENES cls) process_ind total_processes
             seeds deterministic_cudnn w of
        (Inl e, w1) \<Rightarrow> (Inl e, w1)
      | (Inr res, w1) \<Rightarrow>
         (case set_max_tasks (VALID_SAMPLES_IN_SCENE cls)
                 (AList.update ''scene_period'' (PInt (VALID_SAMPLES_IN_SCENE cls)) res) w1 of
            Inl e \<Rightarrow> (Inl e, w1)
          | Inr res1 \<Rightarrow> nav_env_args devices res1 w1))"

definition nav_test_task_sampler_args ::
  "experiment_config \<Rightarrow> int \<Rightarrow> int \<Rightarrow> int list option \<Rightarrow> int list option \<Rightarrow> bool \<Rightarrow> world
     \<Rightarrow> (py_error + pydict) \<times> world" where
  "nav_test_task_sampler_args cls process_ind total_processes devices seeds
       deterministic_cudnn w =
     (case get_sampler_args_for_scene_split cls (TEST_SCENES cls) process_ind total_processes
             seeds deterministic_cudnn w of
        (Inl e, w1) \<Rightarrow> (Inl e, w1)
      | (Inr res, w1) \<Rightarrow>
         (case set_max_tasks (TEST_SAMPLES_IN_SCENE cls)
                 (AList.update ''scene_period'' (PInt (TEST_SAMPLES_IN_SCENE cls)) res) w1 of
            Inl e \<Rightarrow> (Inl e, w1)
          | Inr res1 \<Rightarrow> nav_env_args devices res1 w1))"

subsection \<open>The classes as the files define them\<close>

text \<open>
  The store right after the class body has run, and the attribute table pointing into
  it.  The two classes differ in \<^verbatim>\<open>OBJECT_TYPES\<close> only, as far as these methods read
  them.  The number of actions is a parameter.
\<close>

definition class_heap :: "string \<Rightarrow> pyobj list" where
  "class_heap object_type =
     [ListObj [object_type],
      ListObj [''FloorPlan1_physics''],
      ListObj [''FloorPlan1_physics''],
      ListObj [''FloorPlan1_physics''],
      SensorsObj,
      DictObj [(''player_screen_height'', PInt 224),
               (''player_screen_width'', PInt 224),
               (''quality'', PStr ''Very Low'')]]"

definition class_attrs :: "int \<Rightarrow> experiment_config" where
  "class_attrs n =
     \<lparr>OBJECT_TYPES = 0, TRAIN_SCENES = 1, VALID_SCENES = 2, TEST_SCENES = 3, SENSORS = 4,
      ENV_ARGS = 5, MAX_STEPS = 128, SCENE_PERIOD = 10, VALID_SAMPLES_IN_SCENE = 5,
      TEST_SAMPLES_IN_SCENE = 2, num_actions = n\<rparr>"

definition manip_world :: world where
  "manip_world = \<lparr>heap = class_heap ''Bowl'', stdout = []\<rparr>"

definition nav_world :: world where
  "nav_world = \<lparr>heap = class_heap ''Tomato'', stdout = []\<rparr>"

text \<open>A store that holds nothing but one scene list, at address 0.\<close>

definition scene_world :: "string list \<Rightarrow> world" where
  "scene_world xs = \<lparr>heap = [ListObj xs], stdout = []\<rparr>"

subsection \<open>Calling a method by class and mode\<close>

text \<open>
  The driver calls one of the six methods; \<open>task_sampler_args\<close> names that choice, and
  \<open>x_display_of\<close> reads \<^verbatim>\<open>res["env_args"]["x_display"]\<close> back from a result.
\<close>

datatype config_class = Manip | Nav

datatype mode = Train | Valid | Test

definition task_sampler_args ::
  "config_class \<Rightarrow> mode \<Rightarrow> experiment_config \<Rightarrow> int \<Rightarrow> int \<Rightarrow> int list option
     \<Rightarrow> int list option \<Rightarrow> bool \<Rightarrow> world \<Rightarrow> (py_error + pydict) \<times> world" where
  "task_sampler_args k m =
     (case k of
        Manip \<Rightarrow>
          (case m of
             Train \<Rightarrow> manip_train_task_sampler_args
           | Valid \<Rightarrow> manip_valid_task_sampler_args
           | Test \<Rightarrow> manip_test_task_sampler_args)
      | Nav \<Rightarrow>
          (case m of
             Train \<Rightarrow> nav_train_task_sampler_args
           | Valid \<Rightarrow> nav_valid_task_sampler_args
           | Test \<Rightarrow> nav_test_task_sampler_args))"

definition mode_scenes :: "experiment_config \<Rightarrow> mode \<Rightarrow> addr" where
  "mode_scenes cls m =
     (case m of Train \<Rightarrow> TRAIN_SCENES cls | Valid \<Rightarrow> VALID_SCENES cls | Test \<Rightarrow> TEST_SCENES cls)"

definition x_display_of :: "pydict \<Rightarrow> world \<Rightarrow> pyval option" where
  "x_display_of res w =
     (case map_of res ''env_args'' of
        Some (PRef a) \<Rightarrow> (case dict_at w a of Some d \<Rightarrow> map_of d ''x_display'' | None \<Rightarrow> None)
      | _ \<Rightarrow> None)"

text \<open>The store of the manipulation class when \<^verbatim>\<open>TRAIN_SCENES\<close> is the empty list.\<close>

definition empty_train_world :: world where
  "empty_train_world = \<lparr>heap = (class_heap ''Bowl'')[1 := ListObj []], stdout = []\<rparr>"

text \<open>
  The \<open>i\<close>-th sample of \<^verbatim>\<open>np.linspace(0, n, p + 1)\<close> for positive \<open>n\<close> and \<open>p\<close>, in
  closed form, and the rounded sample.  They serve to state the lemmas on
  \<open>partition_inds\<close>.
\<close>

definition sample :: "int \<Rightarrow> nat \<Rightarrow> nat \<Rightarrow> real" where
  "sample n p i =
     (if i = p then of_int n else fl64 (fl64 (of_nat i * fl64 (of_int n / of_nat p)) + 0))"

definition boundary :: "int \<Rightarrow> nat \<Rightarrow> nat \<Rightarrow> int" where
  "boundary n p i = rint (sample n p i)"

section \<open>Store lemmas\<close>

lemma list_at_print_line: "list_at (print_line s w) a = list_at w a"
  by (simp add: list_at_def print_line_def)

lemma heap_print_line: "heap (print_line s w) = heap w"
  by (simp add: print_line_def)

lemma stdout_print_line: "stdout (print_line s w) = stdout w @ [s]"
  by (simp add: print_line_def)

lemma alloc_eq: "alloc obj w = (length (heap w), w\<lparr>heap := heap w @ [obj]\<rparr>)"
  by (simp add: alloc_def)

lemma list_at_append_new: "list_at (w\<lparr>heap := heap w @ [ListObj xs]\<rparr>) (length (heap w)) = Some xs"
  by (simp add: list_at_def)

lemma list_at_append_old:
  "list_at w a = Some xs \<Longrightarrow> list_at (w\<lparr>heap := heap w @ [obj]\<rparr>) a = Some xs"
  by (auto simp: list_at_def nth_append split: if_splits)

lemma scenes_for_processes_keep:
  assumes "list_at w a = Some xs" and "0 < P" and "P \<le> int (length xs)"
  shows "scenes_for_processes a P w =
           (Inr a, if int (length xs) mod P \<noteq> 0 then print_line warn_divisor w else w)"
  using assms by (simp add: scenes_for_processes_def)

lemma get_sampler_args_returns:
  assumes "scenes_for_processes a P w = (Inr a1, w1)"
    and "list_at w1 a1 = Some xs"
    and "partition_inds (int (length xs)) P = Inr inds"
    and "py_getitem inds i = Inr lo"
    and "py_getitem inds (i + 1) = Inr hi"
    and "seed_for seeds i = Inr sd"
  shows "get_sampler_args_for_scene_split cls a i P seeds dc w =
           (Inr [(''scenes'', PRef (length (heap w1))),
                 (''object_types'', PRef (OBJECT_TYPES cls)),
                 (''env_args'', PRef (ENV_ARGS cls)),
                 (''max_steps'', PInt (MAX_STEPS cls)),
                 (''sensors'', PRef (SENSORS cls)),
                 (''action_space'', PDiscrete (num_actions cls)),
                 (''seed'', sd),
                 (''deterministic_cudnn'', PBool dc)],
            w1\<lparr>heap := heap w1 @ [ListObj (py_slice xs (Some lo) (Some hi))]\<rparr>)"
  using assms by (simp add: get_sampler_args_for_scene_split_def alloc_eq)

lemma assigned_scenes_returns:
  assumes "scenes_for_processes a P w = (Inr a1, w1)"
    and "list_at w1 a1 = Some xs"
    and "partition_inds (int (length xs)) P = Inr inds"
    and "py_getitem inds i = Inr lo"
    and "py_getitem inds (i + 1) = Inr hi"
  shows "assigned_scenes cls a i P w = Some (py_slice xs (Some lo) (Some hi))"
proof -
  have s: "seed_for None i = Inr PNone" by (simp add: seed_for_def)
  show ?thesis
    unfolding assigned_scenes_def
    by (simp add: get_sampler_args_returns [OF assms s] list_at_append_new)
qed

lemma stdout_get_sampler_args:
  "stdout (snd (get_sampler_args_for_scene_split cls a i P seeds dc w)) =
   stdout (snd (scenes_for_processes a P w))"
  by (auto simp: get_sampler_args_for_scene_split_def alloc_eq
           split: prod.splits sum.splits option.splits)

lemma upt_4: "[0..<4] = [0, 1, 2, 3::nat]"
  by (simp add: upt_rec)

lemma partition_inds_5_3: "partition_inds 5 3 = Inr [0, 2, 3, 5]"
  apply (simp add: partition_inds_def linspace_def Let_def upt_4)
  apply (simp add: fl64_def rint_def binexp.simps astype_int32_def Let_def)
  done

text \<open>
  Claim C3.  With the five scenes \<open>s0\<close>, \<open>s1\<close>, \<open>s2\<close>, \<open>s3\<close>, \<open>s4\<close> and three processes
  the boundary indices are \<open>[0, 2, 3, 5]\<close>; process 0 is handed \<open>s0\<close> and \<open>s1\<close>, process 1
  \<open>s2\<close>, process 2 \<open>s3\<close> and \<open>s4\<close>; and every call prints the warning of the branch where
  the number of scenes is not a multiple of the number of processes.
\<close>

theorem five_scenes_three_processes:
  assumes "list_at w a = Some [''s0'', ''s1'', ''s2'', ''s3'', ''s4'']"
  shows "partition_inds 5 3 = Inr [0, 2, 3, 5]
       \<and> assigned_scenes cls a 0 3 w = Some [''s0'', ''s1'']
       \<and> assigned_scenes cls a 1 3 w = Some [''s2'']
       \<and> assigned_scenes cls a 2 3 w = Some [''s3'', ''s4'']
       \<and> stdout (snd (get_sampler_args_for_scene_split cls a i 3 seeds dc w)) =
           stdout w @ [warn_divisor]"
proof -
  let ?xs = "[''s0'', ''s1'', ''s2'', ''s3'', ''s4'']"
  let ?w1 = "print_line warn_divisor w"
  have sp: "scenes_for_processes a 3 w = (Inr a, ?w1)"
    using scenes_for_processes_keep [OF assms, of 3] by simp
  have l1: "list_at ?w1 a = Some ?xs"
    using assms by (simp add: list_at_print_line)
  have pi: "partition_inds (int (length ?xs)) 3 = Inr [0, 2, 3, 5]"
    using partition_inds_5_3 by simp
  have a0: "assigned_scenes cls a 0 3 w = Some [''s0'', ''s1'']"
    by (subst assigned_scenes_returns [OF sp l1 pi, of 0 0 2])
       (simp_all add: py_getitem_def py_slice_def slice_bound_def)
  have a1: "assigned_scenes cls a 1 3 w = Some [''s2'']"
    by (subst assigned_scenes_returns [OF sp l1 pi, of 1 2 3])
       (simp_all add: py_getitem_def py_slice_def slice_bound_def)
  have a2: "assigned_scenes cls a 2 3 w = Some [''s3'', ''s4'']"
    by (subst assigned_scenes_returns [OF sp l1 pi, of 2 3 5])
       (simp_all add: py_getitem_def py_slice_def slice_bound_def)
  have so: "stdout (snd (get_sampler_args_for_scene_split cls a i 3 seeds dc w)) =
              stdout w @ [warn_divisor]"
    by (simp add: stdout_get_sampler_args sp stdout_print_line)
  show ?thesis using partition_inds_5_3 a0 a1 a2 so by simp
qed

theorem five_scenes_three_processes_witness:
  "partition_inds 5 3 = Inr [0, 2, 3, 5]
   \<and> assigned_scenes (class_attrs 6) 0 0 3 (scene_world [''s0'', ''s1'', ''s2'', ''s3'', ''s4''])
       = Some [''s0'', ''s1'']
   \<and> assigned_scenes (class_attrs 6) 0 1 3 (scene_world [''s0'', ''s1'', ''s2'', ''s3'', ''s4''])
       = Some [''s2'']
   \<and> assigned_scenes (class_attrs 6) 0 2 3 (scene_world [''s0'', ''s1'', ''s2'', ''s3'', ''s4''])
       = Some [''s3'', ''s4'']
   \<and> stdout (snd (get_sampler_args_for_scene_split (class_attrs 6) 0 0 3 None False
         (scene_world [''s0'', ''s1'', ''s2'', ''s3'', ''s4'']))) = [warn_divisor]"
proof -
  have h: "list_at (scene_world [''s0'', ''s1'', ''s2'', ''s3'', ''s4'']) 0
             = Some [''s0'', ''s1'', ''s2'', ''s3'', ''s4'']"
    by (simp add: list_at_def scene_world_def)
  have e: "stdout (scene_world [''s0'', ''s1'', ''s2'', ''s3'', ''s4'']) = []"
    by (simp add: scene_world_def)
  show ?thesis
    using five_scenes_three_processes [OF h, of "class_attrs 6" 0 None False] e by simp
qed

section \<open>One scene, four processes\<close>

lemma scenes_for_processes_oversample:
  assumes "list_at w a = Some xs" and "xs \<noteq> []" and "int (length xs) < P"
    and "\<bar>fl64 (of_int P / of_int (int (length xs)))\<bar> < 2 ^ 1024"
  shows "scenes_for_processes a P w =
     (let w1 = (if P mod int (length xs) \<noteq> 0 then print_line warn_divisible w else w);
          ys = py_list_mul xs \<lceil>fl64 (of_int P / of_int (int (length xs)))\<rceil>;
          zs = py_slice ys None (Some (P * (int (length ys) div P)))
      in (Inr (Suc (length (heap w))), w1\<lparr>heap := heap w @ [ListObj ys, ListObj zs]\<rparr>))"
  using assms
  by (simp add: scenes_for_processes_def py_truediv_def alloc_eq Let_def heap_print_line)

lemma list_at_append2_new:
  "list_at (w\<lparr>heap := h @ [obj, ListObj zs]\<rparr>) (Suc (length h)) = Some zs"
  by (simp add: list_at_def nth_append)

lemma upt_5: "[0..<5] = [0, 1, 2, 3, 4::nat]"
  by (simp add: upt_rec)

lemma partition_inds_4_4: "partition_inds 4 4 = Inr [0, 1, 2, 3, 4]"
  apply (simp add: partition_inds_def linspace_def Let_def upt_5)
  apply (simp add: fl64_def rint_def binexp.simps astype_int32_def Let_def)
  done

lemma fl64_4: "fl64 4 = 4"
  by (simp add: fl64_def rint_def binexp.simps Let_def)

lemma one_scene_four_normalised:
  assumes "list_at w a = Some [''s0'']"
  shows "scenes_for_processes a 4 w =
           (Inr (Suc (length (heap w))),
            w\<lparr>heap := heap w @ [ListObj [''s0'', ''s0'', ''s0'', ''s0''],
                                  ListObj [''s0'', ''s0'', ''s0'', ''s0'']]\<rparr>)"
  by (simp add: scenes_for_processes_oversample [OF assms] Let_def fl64_4 py_list_mul_def
        py_slice_def slice_bound_def eval_nat_numeral)

text \<open>
  Claim C4, as the code has it.  With the single scene \<open>s0\<close> and four processes the scene
  list becomes four copies of \<open>s0\<close> and each of the four processes is handed exactly one
  \<open>s0\<close>.  Nothing is printed: the warning of the oversampling branch is guarded by
  \<^verbatim>\<open>total_processes % len(scenes) != 0\<close>, and \<open>4 mod 1 = 0\<close>.
\<close>

theorem one_scene_four_processes:
  assumes "list_at w a = Some [''s0'']"
  shows "(case scenes_for_processes a 4 w of
            (Inl e, w1) \<Rightarrow> False
          | (Inr a1, w1) \<Rightarrow> list_at w1 a1 = Some [''s0'', ''s0'', ''s0'', ''s0''])
       \<and> assigned_scenes cls a 0 4 w = Some [''s0'']
       \<and> assigned_scenes cls a 1 4 w = Some [''s0'']
       \<and> assigned_scenes cls a 2 4 w = Some [''s0'']
       \<and> assigned_scenes cls a 3 4 w = Some [''s0'']
       \<and> stdout (snd (get_sampler_args_for_scene_split cls a i 4 seeds dc w)) = stdout w"
proof -
  let ?ys = "[''s0'', ''s0'', ''s0'', ''s0'']"
  let ?w1 = "w\<lparr>heap := heap w @ [ListObj ?ys, ListObj ?ys]\<rparr>"
  note sp = one_scene_four_normalised [OF assms]
  have l1: "list_at ?w1 (Suc (length (heap w))) = Some ?ys"
    by (rule list_at_append2_new)
  have pi: "partition_inds (int (length ?ys)) 4 = Inr [0, 1, 2, 3, 4]"
    using partition_inds_4_4 by simp
  have a0: "assigned_scenes cls a 0 4 w = Some [''s0'']"
    by (subst assigned_scenes_returns [OF sp l1 pi, of 0 0 1])
       (simp_all add: py_getitem_def py_slice_def slice_bound_def)
  have a1: "assigned_scenes cls a 1 4 w = Some [''s0'']"
    by (subst assigned_scenes_returns [OF sp l1 pi, of 1 1 2])
       (simp_all add: py_getitem_def py_slice_def slice_bound_def)
  have a2: "assigned_scenes cls a 2 4 w = Some [''s0'']"
    by (subst assigned_scenes_returns [OF sp l1 pi, of 2 2 3])
       (simp_all add: py_getitem_def py_slice_def slice_bound_def)
  have a3: "assigned_scenes cls a 3 4 w = Some [''s0'']"
    by (subst assigned_scenes_returns [OF sp l1 pi, of 3 3 4])
       (simp_all add: py_getitem_def py_slice_def slice_bound_def)
  have so: "stdout (snd (get_sampler_args_for_scene_split cls a i 4 seeds dc w)) = stdout w"
    by (simp add: stdout_get_sampler_args sp)
  show ?thesis using a0 a1 a2 a3 so by (simp add: sp l1)
qed

lemma list_at_scene_world: "list_at (scene_world xs) 0 = Some xs"
  by (simp add: list_at_def scene_world_def)

lemma stdout_scene_world: "stdout (scene_world xs) = []"
  by (simp add: scene_world_def)

theorem one_scene_four_processes_witness:
  "(case scenes_for_processes 0 4 (scene_world [''s0'']) of
      (Inl e, w1) \<Rightarrow> False
    | (Inr a1, w1) \<Rightarrow> list_at w1 a1 = Some [''s0'', ''s0'', ''s0'', ''s0''])
   \<and> assigned_scenes (class_attrs 6) 0 0 4 (scene_world [''s0'']) = Some [''s0'']
   \<and> assigned_scenes (class_attrs 6) 0 1 4 (scene_world [''s0'']) = Some [''s0'']
   \<and> assigned_scenes (class_attrs 6) 0 2 4 (scene_world [''s0'']) = Some [''s0'']
   \<and> assigned_scenes (class_attrs 6) 0 3 4 (scene_world [''s0'']) = Some [''s0'']
   \<and> stdout (snd (get_sampler_args_for_scene_split (class_attrs 6) 0 0 4 None False
         (scene_world [''s0'']))) = []"
  using one_scene_four_processes [OF list_at_scene_world, of "class_attrs 6" 0 None False]
  by (simp add: stdout_scene_world)

text \<open>
  The claim's last clause, that a warning is emitted for this input, fails: the output is
  empty.
\<close>

theorem one_scene_four_processes_prints_nothing:
  "stdout (snd (get_sampler_args_for_scene_split (class_attrs 6) 0 0 4 None False
     (scene_world [''s0'']))) = []
   \<and> warn_divisible \<notin> set (stdout (snd (get_sampler_args_for_scene_split (class_attrs 6) 0 0 4
         None False (scene_world [''s0'']))))"
proof -
  have sp: "scenes_for_processes 0 4 (scene_world [''s0'']) =
              (Inr (Suc (length (heap (scene_world [''s0''])))),
               (scene_world [''s0''])\<lparr>heap := heap (scene_world [''s0'']) @
                  [ListObj [''s0'', ''s0'', ''s0'', ''s0''],
                   ListObj [''s0'', ''s0'', ''s0'', ''s0'']]\<rparr>)"
    by (rule one_scene_four_normalised [OF list_at_scene_world])
  show ?thesis
    by (simp add: stdout_get_sampler_args sp stdout_scene_world)
qed

section \<open>Calls that cannot succeed\<close>

lemma partition_inds_negative: "P < - 1 \<Longrightarrow> partition_inds n P = Inl ValueError"
  by (simp add: partition_inds_def linspace_def)

lemma partition_inds_minus_one: "partition_inds n (- 1) = Inr []"
  by (simp add: partition_inds_def linspace_def)

lemma py_getitem_Nil: "py_getitem [] i = Inl IndexError"
  by (simp add: py_getitem_def)

lemma get_sampler_args_fails:
  assumes "list_at w a = Some xs" and "xs = [] \<or> P \<le> 0"
  shows "fst (get_sampler_args_for_scene_split cls a i P seeds dc w) =
           Inl (if P = 0 \<or> (0 < P \<and> xs = []) then ZeroDivisionError
                else if P = - 1 then IndexError else ValueError)"
proof -
  consider (zero) "P = 0" | (empty) "0 < P" "xs = []" | (m1) "P = - 1" | (neg) "P < - 1"
    using assms(2) by fastforce
  then show ?thesis
  proof cases
    case zero
    then show ?thesis using assms(1)
      by (simp add: get_sampler_args_for_scene_split_def scenes_for_processes_def)
  next
    case empty
    then show ?thesis using assms(1)
      by (simp add: get_sampler_args_for_scene_split_def scenes_for_processes_def)
  next
    case m1
    then show ?thesis using assms(1)
      by (simp add: get_sampler_args_for_scene_split_def scenes_for_processes_def
            list_at_print_line partition_inds_minus_one py_getitem_Nil)
  next
    case neg
    then show ?thesis using assms(1)
      by (simp add: get_sampler_args_for_scene_split_def scenes_for_processes_def
            list_at_print_line partition_inds_negative)
  qed
qed

lemma task_sampler_args_fails:
  assumes "fst (get_sampler_args_for_scene_split cls (mode_scenes cls m) i P seeds dc w) = Inl e"
  shows "fst (task_sampler_args k m cls i P devices seeds dc w) = Inl e"
  using assms
  by (cases k; cases m)
     (auto simp: task_sampler_args_def mode_scenes_def manip_train_task_sampler_args_def
        manip_valid_task_sampler_args_def manip_test_task_sampler_args_def
        nav_train_task_sampler_args_def nav_valid_task_sampler_args_def
        nav_test_task_sampler_args_def split: prod.splits sum.splits)

text \<open>
  Claim C7, as the code has it.  A call with an empty scene list or with a process count
  that is not positive never returns a dictionary, from the helper or from any of the six
  methods.  The error is the interpreter's own: \<open>ZeroDivisionError\<close> from the \<^verbatim>\<open>%\<close> when the
  scene list is empty or the process count is zero, \<open>IndexError\<close> from indexing the empty
  boundary array when the process count is \<open>-1\<close>, \<open>ValueError\<close> from \<^verbatim>\<open>np.linspace\<close> when it
  is below \<open>-1\<close>.
\<close>

theorem empty_scenes_or_no_processes_fail:
  assumes "list_at w (mode_scenes cls m) = Some xs" and "xs = [] \<or> P \<le> 0"
  shows "fst (get_sampler_args_for_scene_split cls (mode_scenes cls m) i P seeds dc w) =
           Inl (if P = 0 \<or> (0 < P \<and> xs = []) then ZeroDivisionError
                else if P = - 1 then IndexError else ValueError)
       \<and> fst (task_sampler_args k m cls i P devices seeds dc w) =
           Inl (if P = 0 \<or> (0 < P \<and> xs = []) then ZeroDivisionError
                else if P = - 1 then IndexError else ValueError)"
  using get_sampler_args_fails [OF assms] task_sampler_args_fails by blast

theorem empty_scenes_or_no_processes_fail_witness:
  "fst (get_sampler_args_for_scene_split (class_attrs 6) (mode_scenes (class_attrs 6) Train)
          0 1 None False empty_train_world) = Inl ZeroDivisionError
   \<and> fst (task_sampler_args Manip Train (class_attrs 6) 0 1 (Some [0]) None False
          empty_train_world) = Inl ZeroDivisionError"
proof -
  have h: "list_at empty_train_world (mode_scenes (class_attrs 6) Train) = Some []"
    by (simp add: list_at_def empty_train_world_def mode_scenes_def class_attrs_def
          class_heap_def)
  show ?thesis
    using empty_scenes_or_no_processes_fail [OF h, of 1 0 None False Manip "Some [0]"]
    by simp
qed

text \<open>
  The claim names a \<open>ConfigurationError\<close>; with no scenes and one process the error is a
  \<open>ZeroDivisionError\<close>.
\<close>

theorem empty_scenes_raise_ZeroDivisionError:
  "fst (get_sampler_args_for_scene_split (class_attrs 6) 0 0 1 None False (scene_world []))
     = Inl ZeroDivisionError
   \<and> fst (get_sampler_args_for_scene_split (class_attrs 6) 0 0 1 None False (scene_world []))
     \<noteq> Inl ConfigurationError"
  using get_sampler_args_fails [OF list_at_scene_world, of "[]" 1 "class_attrs 6" 0 None False]
  by simp

section \<open>No device list\<close>

lemma dict_update_from_error: "fst (dict_update_from a b w) = Inl e \<Longrightarrow> e = TypeError"
  by (auto simp: dict_update_from_def split: option.splits)

lemma dict_setitem_error: "fst (dict_setitem a k v w) = Inl e \<Longrightarrow> e = TypeError"
  by (auto simp: dict_setitem_def split: option.splits)

lemma set_max_tasks_error: "set_max_tasks n res w = Inl e \<Longrightarrow> e = TypeError"
  by (auto simp: set_max_tasks_def len_scenes_def
           split: sum.splits option.splits pyval.splits)

lemma manip_env_args_None: "fst (manip_env_args cls i None res w) = Inl TypeError"
proof -
  obtain r w2 where d: "dict_update_from (length (heap w)) (ENV_ARGS cls)
      (w\<lparr>heap := heap w @ [DictObj []]\<rparr>) = (r, w2)"
    by (cases "dict_update_from (length (heap w)) (ENV_ARGS cls) (w\<lparr>heap := heap w @ [DictObj []]\<rparr>)")
  show ?thesis
  proof (cases r)
    case (Inl e)
    then have "e = TypeError" using d dict_update_from_error [of "length (heap w)" "ENV_ARGS cls"
        "w\<lparr>heap := heap w @ [DictObj []]\<rparr>" e] by simp
    then show ?thesis using d Inl
      by (simp add: manip_env_args_def alloc_eq)
  next
    case (Inr u)
    then show ?thesis using d
      by (simp add: manip_env_args_def alloc_eq manip_x_display_def)
  qed
qed

lemma nav_env_args_None: "fst (nav_env_args None res w) = Inl TypeError"
  by (simp add: nav_env_args_def nav_x_display_def)

lemmas method_defs =
  task_sampler_args_def mode_scenes_def manip_train_task_sampler_args_def
  manip_valid_task_sampler_args_def manip_test_task_sampler_args_def
  nav_train_task_sampler_args_def nav_valid_task_sampler_args_def
  nav_test_task_sampler_args_def

lemma task_sampler_args_None_after:
  assumes "get_sampler_args_for_scene_split cls (mode_scenes cls m) i P seeds dc w = (Inr res, w1)"
  shows "fst (task_sampler_args k m cls i P None seeds dc w) = Inl TypeError"
proof -
  have mt: "\<And>n r. fst (case set_max_tasks n r w1 of
                Inl e \<Rightarrow> (Inl e, w1)
              | Inr res1 \<Rightarrow> manip_env_args cls i None res1 w1) = Inl TypeError"
    by (auto split: sum.splits dest: set_max_tasks_error simp: manip_env_args_None)
  have nt: "\<And>n r. fst (case set_max_tasks n r w1 of
                Inl e \<Rightarrow> (Inl e, w1)
              | Inr res1 \<Rightarrow> nav_env_args None res1 w1) = Inl TypeError"
    by (auto split: sum.splits dest: set_max_tasks_error simp: nav_env_args_None)
  show ?thesis
    using assms
    by (cases k; cases m) (simp_all add: method_defs manip_env_args_None nav_env_args_None mt nt)
qed

text \<open>
  Claim C8.  Called with \<^verbatim>\<open>devices = None\<close>, each of the six methods fails: with the error
  of \<^verbatim>\<open>_get_sampler_args_for_scene_split\<close> when that call fails, and with the
  \<open>TypeError\<close> of \<^verbatim>\<open>len(None)\<close> otherwise.
\<close>

theorem devices_None_fails:
  "(\<exists>e. fst (task_sampler_args k m cls i P None seeds dc w) = Inl e)
   \<and> fst (task_sampler_args k m cls i P None seeds dc w) =
      (case fst (get_sampler_args_for_scene_split cls (mode_scenes cls m) i P seeds dc w) of
         Inl e \<Rightarrow> Inl e
       | Inr res \<Rightarrow> Inl TypeError)"
proof -
  obtain r w1 where g:
    "get_sampler_args_for_scene_split cls (mode_scenes cls m) i P seeds dc w = (r, w1)"
    by (cases "get_sampler_args_for_scene_split cls (mode_scenes cls m) i P seeds dc w")
  have "fst (task_sampler_args k m cls i P None seeds dc w) =
          (case r of Inl e \<Rightarrow> Inl e | Inr res \<Rightarrow> Inl TypeError)"
  proof (cases r)
    case (Inl e)
    then show ?thesis using g task_sampler_args_fails [of cls m i P seeds dc w e k None] by simp
  next
    case (Inr res)
    then show ?thesis using g task_sampler_args_None_after [of cls m i P seeds dc w res w1 k]
      by simp
  qed
  then show ?thesis using g by (auto split: sum.splits)
qed

section \<open>List objects are never written\<close>

lemma list_at_alloc:
  "list_at w a = Some xs \<Longrightarrow> list_at (snd (alloc obj w)) a = Some xs"
  by (simp add: alloc_eq list_at_append_old)

lemma list_at_dict_setitem:
  "list_at w a = Some xs \<Longrightarrow> list_at (snd (dict_setitem b k v w)) a = Some xs"
  by (auto simp: dict_setitem_def dict_at_def list_at_def nth_list_update
           split: option.splits if_splits pyobj.splits)

lemma list_at_dict_setitemD:
  "dict_setitem b k v w = (r, w1) \<Longrightarrow> list_at w a = Some xs \<Longrightarrow> list_at w1 a = Some xs"
  using list_at_dict_setitem [of w a xs b k v] by simp

lemma list_at_dict_update_from:
  "list_at w a = Some xs \<Longrightarrow> list_at (snd (dict_update_from b c w)) a = Some xs"
  by (auto simp: dict_update_from_def dict_at_def list_at_def nth_list_update
           split: option.splits if_splits pyobj.splits)

lemma list_at_scenes_for_processes:
  assumes "list_at w a = Some xs"
  shows "list_at (snd (scenes_for_processes b P w)) a = Some xs"
proof (cases "list_at w b")
  case None
  then show ?thesis using assms by (simp add: scenes_for_processes_def)
next
  case (Some ys)
  show ?thesis
  proof (cases "ys \<noteq> [] \<and> int (length ys) < P")
    case True
    have k: "list_at (w'\<lparr>heap := heap w @ [o1, o2]\<rparr>) a = Some xs"
      if "heap w' = heap w" for w' o1 o2
      using assms by (auto simp: list_at_def nth_append split: if_splits)
    show ?thesis
    proof (cases "\<bar>fl64 (of_int P / of_int (int (length ys)))\<bar> < 2 ^ 1024")
      case small: True
      show ?thesis using True Some k
        by (simp add: scenes_for_processes_oversample [OF _ _ _ small] Let_def heap_print_line)
    next
      case False
      then show ?thesis using True Some assms
        by (simp add: scenes_for_processes_def py_truediv_def list_at_print_line)
    qed
  next
    case False
    then show ?thesis using Some assms
      by (auto simp: scenes_for_processes_def list_at_print_line)
  qed
qed

lemma list_at_get_sampler_args:
  assumes "list_at w a = Some xs"
  shows "list_at (snd (get_sampler_args_for_scene_split cls b i P seeds dc w)) a = Some xs"
proof -
  obtain r w1 where s: "scenes_for_processes b P w = (r, w1)"
    by (cases "scenes_for_processes b P w")
  have l1: "list_at w1 a = Some xs"
    using list_at_scenes_for_processes [OF assms, of b P] s by simp
  show ?thesis
    using l1 s
    by (auto simp: get_sampler_args_for_scene_split_def alloc_eq list_at_append_old
             split: sum.splits option.splits)
qed

lemma list_at_manip_env_args:
  assumes "list_at w a = Some xs"
  shows "list_at (snd (manip_env_args cls i devices res w)) a = Some xs"
proof -
  let ?w1 = "w\<lparr>heap := heap w @ [DictObj []]\<rparr>"
  have l1: "list_at ?w1 a = Some xs"
    using assms by (rule list_at_append_old)
  obtain r w2 where d: "dict_update_from (length (heap w)) (ENV_ARGS cls) ?w1 = (r, w2)"
    by (cases "dict_update_from (length (heap w)) (ENV_ARGS cls) ?w1")
  have l2: "list_at w2 a = Some xs"
    using list_at_dict_update_from [OF l1, of "length (heap w)" "ENV_ARGS cls"] d by simp
  show ?thesis
    using d l2
    by (auto simp: manip_env_args_def alloc_eq split: sum.splits prod.splits
             dest: list_at_dict_setitemD)
qed

lemma list_at_nav_env_args:
  assumes "list_at w a = Some xs"
  shows "list_at (snd (nav_env_args devices res w)) a = Some xs"
  using assms
  by (auto simp: nav_env_args_def split: sum.splits prod.splits option.splits pyval.splits
           dest: list_at_dict_setitemD)

lemma list_at_task_sampler_args:
  assumes "list_at w a = Some xs"
  shows "list_at (snd (task_sampler_args k m cls i P devices seeds dc w)) a = Some xs"
proof -
  obtain r w1 where g:
    "get_sampler_args_for_scene_split cls (mode_scenes cls m) i P seeds dc w = (r, w1)"
    by (cases "get_sampler_args_for_scene_split cls (mode_scenes cls m) i P seeds dc w")
  have l1: "list_at w1 a = Some xs"
    using list_at_get_sampler_args [OF assms, of cls "mode_scenes cls m" i P seeds dc] g by simp
  note me = list_at_manip_env_args [OF l1] and ne = list_at_nav_env_args [OF l1]
  show ?thesis
    using g l1
    by (cases k; cases m) (auto simp: method_defs me ne split: sum.splits)
qed

text \<open>
  Claim C10.  Whatever the arguments, a call of \<^verbatim>\<open>_get_sampler_args_for_scene_split\<close> or
  of one of the six methods leaves every list object of the store as it was, the scene list
  it was given among them: replication and slicing allocate new lists, and the only writes
  go to dictionaries.
\<close>

theorem scene_lists_never_mutated:
  assumes "list_at w a = Some xs"
  shows "list_at (snd (get_sampler_args_for_scene_split cls a i P seeds dc w)) a = Some xs
       \<and> list_at (snd (task_sampler_args k m cls i P devices seeds dc w)) a = Some xs"
  using list_at_get_sampler_args [OF assms] list_at_task_sampler_args [OF assms] by simp

lemma list_at_nav_world_1: "list_at nav_world 1 = Some [''FloorPlan1_physics'']"
  by (simp add: list_at_def nav_world_def class_heap_def)

theorem scene_lists_never_mutated_witness:
  "list_at (snd (get_sampler_args_for_scene_split (class_attrs 6) 1 0 2 None False nav_world)) 1
     = Some [''FloorPlan1_physics'']
   \<and> list_at (snd (task_sampler_args Nav Train (class_attrs 6) 0 2 (Some [0]) None False
        nav_world)) 1 = Some [''FloorPlan1_physics'']"
  using scene_lists_never_mutated [OF list_at_nav_world_1] by simp

section \<open>The display offset and the shared environment arguments\<close>

lemma upt_2: "[0..<2] = [0, 1::nat]"
  by (simp add: upt_rec)

lemma upt_3: "[0..<3] = [0, 1, 2::nat]"
  by (simp add: upt_rec)

lemma partition_inds_1_1: "partition_inds 1 1 = Inr [0, 1]"
  apply (simp add: partition_inds_def linspace_def Let_def upt_2)
  apply (simp add: fl64_def rint_def binexp.simps astype_int32_def Let_def)
  done

lemma partition_inds_2_2: "partition_inds 2 2 = Inr [0, 1, 2]"
  apply (simp add: partition_inds_def linspace_def Let_def upt_3)
  apply (simp add: fl64_def rint_def binexp.simps astype_int32_def Let_def)
  done

lemma fl64_2: "fl64 2 = 2"
  by (simp add: fl64_def rint_def binexp.simps Let_def)

lemma fmt_d_0: "fmt_d 0 = ''0''"
  by (simp add: fmt_d_def str_nat.simps)

lemma fmt_d_1: "fmt_d 1 = ''1''"
  by (simp add: fmt_d_def str_nat.simps)

lemma class_world_train_one:
  assumes "heap w = class_heap t"
  shows "get_sampler_args_for_scene_split (class_attrs n) (TRAIN_SCENES (class_attrs n)) 0 1
           None False w =
     (Inr [(''scenes'', PRef 6), (''object_types'', PRef 0), (''env_args'', PRef 5),
           (''max_steps'', PInt 128), (''sensors'', PRef 4), (''action_space'', PDiscrete n),
           (''seed'', PNone), (''deterministic_cudnn'', PBool False)],
      w\<lparr>heap := class_heap t @ [ListObj [''FloorPlan1_physics'']]\<rparr>)"
proof -
  have l: "list_at w 1 = Some [''FloorPlan1_physics'']"
    using assms by (simp add: list_at_def class_heap_def)
  have sp: "scenes_for_processes 1 1 w = (Inr 1, w)"
    using scenes_for_processes_keep [OF l, of 1] by simp
  have pi: "partition_inds (int (length [''FloorPlan1_physics''])) 1 = Inr [0, 1]"
    using partition_inds_1_1 by simp
  have g0: "py_getitem [0, 1::int] 0 = Inr 0" by (simp add: py_getitem_def)
  have g1: "py_getitem [0, 1::int] (0 + 1) = Inr 1" by (simp add: py_getitem_def)
  have sd: "seed_for None 0 = Inr PNone" by (simp add: seed_for_def)
  show ?thesis
    using get_sampler_args_returns [OF sp l pi g0 g1 sd, of "class_attrs n" False] assms
    by (simp add: class_attrs_def class_heap_def py_slice_def slice_bound_def)
qed

lemma class_world_train_second_of_two:
  assumes "heap w = class_heap t"
  shows "get_sampler_args_for_scene_split (class_attrs n) (TRAIN_SCENES (class_attrs n)) 1 2
           None False w =
     (Inr [(''scenes'', PRef 8), (''object_types'', PRef 0), (''env_args'', PRef 5),
           (''max_steps'', PInt 128), (''sensors'', PRef 4), (''action_space'', PDiscrete n),
           (''seed'', PNone), (''deterministic_cudnn'', PBool False)],
      w\<lparr>heap := class_heap t @
         [ListObj [''FloorPlan1_physics'', ''FloorPlan1_physics''],
          ListObj [''FloorPlan1_physics'', ''FloorPlan1_physics''],
          ListObj [''FloorPlan1_physics'']]\<rparr>)"
proof -
  let ?ys = "[''FloorPlan1_physics'', ''FloorPlan1_physics'']"
  let ?w1 = "w\<lparr>heap := heap w @ [ListObj ?ys, ListObj ?ys]\<rparr>"
  have l: "list_at w 1 = Some [''FloorPlan1_physics'']"
    using assms by (simp add: list_at_def class_heap_def)
  have sp: "scenes_for_processes 1 2 w = (Inr (Suc (length (heap w))), ?w1)"
    using scenes_for_processes_oversample [OF l, of 2]
    by (simp add: Let_def fl64_2 py_list_mul_def py_slice_def slice_bound_def eval_nat_numeral)
  have l1: "list_at ?w1 (Suc (length (heap w))) = Some ?ys"
    by (rule list_at_append2_new)
  have pi: "partition_inds (int (length ?ys)) 2 = Inr [0, 1, 2]"
    using partition_inds_2_2 by simp
  have g0: "py_getitem [0, 1, 2::int] 1 = Inr 1" by (simp add: py_getitem_def)
  have g1: "py_getitem [0, 1, 2::int] (1 + 1) = Inr 2" by (simp add: py_getitem_def)
  have sd: "seed_for None 1 = Inr PNone" by (simp add: seed_for_def)
  show ?thesis
    using get_sampler_args_returns [OF sp l1 pi g0 g1 sd, of "class_attrs n" False] assms
    by (simp add: class_attrs_def class_heap_def py_slice_def slice_bound_def)
qed

lemma ENV_ARGS_class_attrs: "ENV_ARGS (class_attrs n) = 5"
  by (simp add: class_attrs_def)

lemma heap_nav_world: "heap nav_world = class_heap ''Tomato''"
  by (simp add: nav_world_def)

lemma heap_manip_world: "heap manip_world = class_heap ''Bowl''"
  by (simp add: manip_world_def)

text \<open>
  Claim C5 at \<^verbatim>\<open>process_ind = 1\<close>, \<^verbatim>\<open>total_processes = 2\<close>, \<^verbatim>\<open>devices = [0, 1]\<close>.  The
  claim's offset is \<^verbatim>\<open>devices[1 % 2] = 1\<close>, and the manipulation class yields
  \<^verbatim>\<open>"0.1"\<close>; the navigation class reads \<^verbatim>\<open>devices[0]\<close> and yields \<^verbatim>\<open>"0.0"\<close>.
\<close>

theorem nav_display_ignores_process_index:
  "(case task_sampler_args Nav Train (class_attrs 6) 1 2 (Some [0, 1]) None False nav_world of
      (Inl e, w1) \<Rightarrow> False
    | (Inr res, w1) \<Rightarrow> x_display_of res w1 = Some (PStr ''0.0''))
   \<and> (case task_sampler_args Manip Train (class_attrs 6) 1 2 (Some [0, 1]) None False manip_world of
      (Inl e, w1) \<Rightarrow> False
    | (Inr res, w1) \<Rightarrow> x_display_of res w1 = Some (PStr ''0.1''))"
proof -
  have n: "(case task_sampler_args Nav Train (class_attrs 6) 1 2 (Some [0, 1]) None False nav_world of
      (Inl e, w1) \<Rightarrow> False
    | (Inr res, w1) \<Rightarrow> x_display_of res w1 = Some (PStr ''0.0''))"
    by (simp add: task_sampler_args_def nav_train_task_sampler_args_def
          class_world_train_second_of_two [OF heap_nav_world] nav_env_args_def nav_x_display_def
          py_getitem_def fmt_d_0 dict_setitem_def dict_at_def class_heap_def x_display_of_def)
  have m: "(case task_sampler_args Manip Train (class_attrs 6) 1 2 (Some [0, 1]) None False manip_world of
      (Inl e, w1) \<Rightarrow> False
    | (Inr res, w1) \<Rightarrow> x_display_of res w1 = Some (PStr ''0.1''))"
    by (simp add: task_sampler_args_def manip_train_task_sampler_args_def
          class_world_train_second_of_two [OF heap_manip_world] manip_env_args_def
          manip_x_display_def alloc_eq dict_update_from_def
          py_getitem_def fmt_d_1 dict_setitem_def dict_at_def class_heap_def x_display_of_def
          ENV_ARGS_class_attrs)
  show ?thesis using n m by simp
qed

text \<open>
  Claim C6 at \<^verbatim>\<open>process_ind = 0\<close>, \<^verbatim>\<open>total_processes = 1\<close>, \<^verbatim>\<open>devices = [0]\<close>.  The
  class-level \<^verbatim>\<open>ENV_ARGS\<close> (address 5) has three entries before the call of the navigation
  class's \<^verbatim>\<open>train_task_sampler_args\<close> and four after it: the method writes
  \<^verbatim>\<open>x_display\<close> into the shared dictionary.  The manipulation class, which copies the
  dictionary first, leaves it as it was.
\<close>

theorem nav_train_writes_shared_env_args:
  "dict_at nav_world 5 =
     Some [(''player_screen_height'', PInt 224), (''player_screen_width'', PInt 224),
           (''quality'', PStr ''Very Low'')]
   \<and> dict_at (snd (task_sampler_args Nav Train (class_attrs 6) 0 1 (Some [0]) None False
        nav_world)) 5 =
     Some [(''player_screen_height'', PInt 224), (''player_screen_width'', PInt 224),
           (''quality'', PStr ''Very Low''), (''x_display'', PStr ''0.0'')]
   \<and> dict_at (snd (task_sampler_args Manip Train (class_attrs 6) 0 1 (Some [0]) None False
        manip_world)) 5 =
     Some [(''player_screen_height'', PInt 224), (''player_screen_width'', PInt 224),
           (''quality'', PStr ''Very Low'')]"
proof -
  have b: "dict_at nav_world 5 =
     Some [(''player_screen_height'', PInt 224), (''player_screen_width'', PInt 224),
           (''quality'', PStr ''Very Low'')]"
    by (simp add: dict_at_def nav_world_def class_heap_def)
  have n: "dict_at (snd (task_sampler_args Nav Train (class_attrs 6) 0 1 (Some [0]) None False
        nav_world)) 5 =
     Some [(''player_screen_height'', PInt 224), (''player_screen_width'', PInt 224),
           (''quality'', PStr ''Very Low''), (''x_display'', PStr ''0.0'')]"
    by (simp add: task_sampler_args_def nav_train_task_sampler_args_def
          class_world_train_one [OF heap_nav_world] nav_env_args_def nav_x_display_def
          py_getitem_def fmt_d_0 dict_setitem_def dict_at_def class_heap_def ENV_ARGS_class_attrs)
  have m: "dict_at (snd (task_sampler_args Manip Train (class_attrs 6) 0 1 (Some [0]) None False
        manip_world)) 5 =
     Some [(''player_screen_height'', PInt 224), (''player_screen_width'', PInt 224),
           (''quality'', PStr ''Very Low'')]"
    by (simp add: task_sampler_args_def manip_train_task_sampler_args_def
          class_world_train_one [OF heap_manip_world] manip_env_args_def
          manip_x_display_def alloc_eq dict_update_from_def
          py_getitem_def fmt_d_0 dict_setitem_def dict_at_def class_heap_def ENV_ARGS_class_attrs)
  show ?thesis using b n m by simp
qed

section \<open>Indexing the boundary array\<close>

lemma partition_inds_length:
  assumes "- 1 \<le> P"
  shows "\<exists>inds. partition_inds n P = Inr inds \<and> length inds = nat (P + 1)"
  using assms by (simp add: partition_inds_def linspace_def Let_def)

lemma py_getitem_nonneg:
  "0 \<le> i \<Longrightarrow> py_getitem zs i = (if i < int (length zs) then Inr (zs ! nat i) else Inl IndexError)"
  by (simp add: py_getitem_def)

section \<open>Rounding\<close>

lemma rint_bounds: "x - 1 / 2 \<le> of_int (rint x) \<and> of_int (rint x) \<le> x + 1 / 2"
proof -
  define f where "f = \<lfloor>x\<rfloor>"
  have f1: "of_int f \<le> x" and f2: "x < of_int f + 1"
    unfolding f_def by linarith+
  have r: "rint x = (if x - of_int f < 1 / 2 then f
                     else if 1 / 2 < x - of_int f then f + 1
                     else if even f then f else f + 1)"
    by (simp add: rint_def Let_def f_def)
  show ?thesis using f1 f2 unfolding r by auto
qed

lemma rint_lower: "x - 1 / 2 \<le> of_int (rint x)"
  using rint_bounds by blast

lemma rint_upper: "of_int (rint x) \<le> x + 1 / 2"
  using rint_bounds by blast

lemma rint_of_int: "rint (of_int k) = k"
  by (simp add: rint_def)

lemma binexp_bounds:
  "0 < x \<Longrightarrow> 2 powi binexp x \<le> x \<and> x < 2 powi (binexp x + 1)"
proof (induction x rule: binexp.induct)
  case (1 x)
  show ?case
  proof (cases "x < 1")
    case True
    have ih: "2 powi binexp (2 * x) \<le> 2 * x \<and> 2 * x < 2 powi (binexp (2 * x) + 1)"
      using 1(1) [OF True] 1(3) by simp
    have b: "binexp x = binexp (2 * x) - 1"
      using True 1(3) by (subst binexp.simps) simp
    have p1: "(2::real) powi (binexp (2 * x) - 1) = 2 powi binexp (2 * x) / 2"
      by (simp add: power_int_diff)
    have p2: "(2::real) powi (binexp (2 * x) + 1) = 2 powi binexp (2 * x) * 2"
      by (simp add: power_int_add)
    show ?thesis using ih by (simp add: b p1 p2)
  next
    case False
    show ?thesis
    proof (cases "x < 2")
      case True
      have b: "binexp x = 0" using True False by (subst binexp.simps) simp
      show ?thesis using True False by (simp add: b)
    next
      case ge: False
      define b where "b = binexp (x / 2)"
      have ih: "2 powi b \<le> x / 2 \<and> x / 2 < 2 powi (b + 1)"
        using 1(2) [OF False ge] 1(3) by (simp add: b_def)
      have bx: "binexp x = b + 1"
        using False ge by (subst binexp.simps) (simp add: b_def)
      have p1: "(2::real) powi (b + 1) = 2 powi b * 2"
        by (simp add: power_int_add)
      have p2: "(2::real) powi (b + 1 + 1) = 2 powi (b + 1) * 2"
        by (simp add: power_int_add)
      have g1: "2 powi (b + 1) \<le> x" using ih p1 by linarith
      have g2: "x < 2 powi (b + 1 + 1)" using ih p2 by linarith
      show ?thesis unfolding bx using g1 g2 by blast
    qed
  qed
qed

lemma fl64_error:
  assumes "0 < x"
  shows "\<bar>fl64 x - x\<bar> \<le> x / 2 ^ 53"
proof -
  define q :: real where "q = 2 powi (binexp x - 52)"
  have qpos: "0 < q" by (simp add: q_def)
  have q52: "q * 2 ^ 52 = 2 powi binexp x"
    by (simp add: q_def power_int_diff)
  have qle: "q * 2 ^ 52 \<le> x"
    using binexp_bounds [OF assms] q52 by simp
  have f: "fl64 x = of_int (rint (x / q)) * q"
    using assms by (simp add: fl64_def q_def Let_def)
  have "\<bar>of_int (rint (x / q)) - x / q\<bar> \<le> 1 / 2"
    using rint_lower [of "x / q"] rint_upper [of "x / q"] by linarith
  then have "\<bar>of_int (rint (x / q)) - x / q\<bar> * q \<le> 1 / 2 * q"
    using qpos by (intro mult_right_mono) simp_all
  moreover have "\<bar>of_int (rint (x / q)) - x / q\<bar> * q = \<bar>fl64 x - x\<bar>"
  proof -
    have "\<bar>of_int (rint (x / q)) - x / q\<bar> * q = \<bar>(of_int (rint (x / q)) - x / q) * q\<bar>"
      using qpos by (simp add: abs_mult)
    also have "(of_int (rint (x / q)) - x / q) * q = fl64 x - x"
      using qpos by (simp add: f algebra_simps)
    finally show ?thesis .
  qed
  ultimately have "\<bar>fl64 x - x\<bar> \<le> q / 2" by simp
  also have "q / 2 \<le> x / 2 ^ 53" using qle by simp
  finally show ?thesis .
qed

lemma fl64_of_int_exact:
  assumes "0 \<le> k" and "k < 2 ^ 53"
  shows "fl64 (of_int k) = of_int k"
proof (cases "k = 0")
  case True
  then show ?thesis by (simp add: fl64_def)
next
  case False
  define x :: real where "x = of_int k"
  have xpos: "0 < x" using assms False by (simp add: x_def)
  have "2 powi binexp x \<le> x" using binexp_bounds [OF xpos] by simp
  also have "x < 2 powi 53" using assms(2) unfolding x_def
    by (metis of_int_less_iff of_int_numeral of_int_power power_int_numeral)
  finally have "binexp x < 53"
    using power_int_le_imp_less_exp [of "2::real" "binexp x" 53] by simp
  then obtain n :: nat where n: "52 - binexp x = int n"
    using nonneg_int_cases [of "52 - binexp x"] by auto
  have q: "(2::real) powi (binexp x - 52) = 1 / 2 ^ n"
  proof -
    have "binexp x - 52 = - int n" using n by simp
    then show ?thesis by (simp add: power_int_minus_divide)
  qed
  have "x * 2 ^ n = of_int (k * 2 ^ n)" by (simp add: x_def)
  then have r: "rint (x * 2 ^ n) = k * 2 ^ n"
    using rint_of_int [of "k * 2 ^ n"] by simp
  have "fl64 x = of_int (k * 2 ^ n) * (1 / 2 ^ n)"
    using xpos by (simp add: fl64_def Let_def q r del: of_int_mult of_int_power)
  also have "\<dots> = x" by (simp add: x_def)
  finally show ?thesis by (simp add: x_def)
qed

section \<open>The samples of \<^verbatim>\<open>np.linspace\<close>\<close>

lemma fl64_rel:
  assumes "0 < x"
  shows "x * (1 - 1 / 2 ^ 53) \<le> fl64 x" and "fl64 x \<le> x * (1 + 1 / 2 ^ 53)"
proof -
  have e: "\<bar>fl64 x - x\<bar> \<le> x / 2 ^ 53" by (rule fl64_error [OF assms])
  have a: "x * (1 - 1 / 2 ^ 53) = x - x / 2 ^ 53" by (simp add: algebra_simps)
  have b: "x * (1 + 1 / 2 ^ 53) = x + x / 2 ^ 53" by (simp add: algebra_simps)
  show "x * (1 - 1 / 2 ^ 53) \<le> fl64 x" unfolding a using e by linarith
  show "fl64 x \<le> x * (1 + 1 / 2 ^ 53)" unfolding b using e by linarith
qed

lemma fl64_pos: "0 < x \<Longrightarrow> 0 < fl64 x"
proof -
  assume x: "0 < x"
  have "0 < x * (1 - 1 / 2 ^ 53)" using x by simp
  then show ?thesis using fl64_rel(1) [OF x] by linarith
qed

lemma fl64_0: "fl64 0 = 0"
  by (simp add: fl64_def)

lemma sample_bounds:
  assumes d: "0 < d" and c: "0 < c"
  shows "c * d * (1 - 4 / 2 ^ 53) \<le> fl64 (fl64 (c * fl64 d))"
    and "fl64 (fl64 (c * fl64 d)) \<le> c * d * (1 + 4 / 2 ^ 53)"
proof -
  define U :: real where "U = 1 + 1 / 2 ^ 53"
  define V :: real where "V = 1 - 1 / 2 ^ 53"
  have U0: "0 \<le> U" and V0: "0 \<le> V" by (simp_all add: U_def V_def)
  have U3: "U * U * U \<le> 1 + 4 / 2 ^ 53" by (simp add: U_def)
  have V3: "1 - 4 / 2 ^ 53 \<le> V * V * V" by (simp add: V_def)
  define s where "s = fl64 d"
  define t where "t = c * s"
  define v where "v = fl64 t"
  define z where "z = fl64 v"
  have s: "0 < s" "d * V \<le> s" "s \<le> d * U"
    using fl64_pos [OF d] fl64_rel [OF d] by (simp_all add: s_def U_def V_def)
  have t: "0 < t" using s(1) c by (simp add: t_def)
  have t1: "c * d * V \<le> t" using mult_left_mono [OF s(2), of c] c by (simp add: t_def mult.assoc)
  have t2: "t \<le> c * d * U" using mult_left_mono [OF s(3), of c] c by (simp add: t_def mult.assoc)
  have v: "0 < v" "t * V \<le> v" "v \<le> t * U"
    using fl64_pos [OF t] fl64_rel [OF t] by (simp_all add: v_def U_def V_def)
  have z: "v * V \<le> z" "z \<le> v * U"
    using fl64_rel [OF v(1)] by (simp_all add: z_def U_def V_def)
  have cd: "0 \<le> c * d" using c d by simp
  have "z \<le> v * U" by (rule z(2))
  also have "\<dots> \<le> t * U * U" using mult_right_mono [OF v(3) U0] .
  also have "\<dots> \<le> c * d * U * U * U"
    using mult_right_mono [OF mult_right_mono [OF t2 U0] U0] .
  also have "\<dots> = c * d * (U * U * U)" by (simp add: mult.assoc)
  also have "\<dots> \<le> c * d * (1 + 4 / 2 ^ 53)" using mult_left_mono [OF U3 cd] .
  finally show "fl64 (fl64 (c * fl64 d)) \<le> c * d * (1 + 4 / 2 ^ 53)"
    by (simp add: z_def v_def t_def s_def)
  have "c * d * (1 - 4 / 2 ^ 53) \<le> c * d * (V * V * V)" using mult_left_mono [OF V3 cd] .
  also have "\<dots> = c * d * V * V * V" by (simp add: mult.assoc)
  also have "\<dots> \<le> t * V * V"
    using mult_right_mono [OF mult_right_mono [OF t1 V0] V0] .
  also have "\<dots> \<le> v * V" using mult_right_mono [OF v(2) V0] .
  also have "\<dots> \<le> z" by (rule z(1))
  finally show "c * d * (1 - 4 / 2 ^ 53) \<le> fl64 (fl64 (c * fl64 d))"
    by (simp add: z_def v_def t_def s_def)
qed

lemma linspace_samples:
  assumes "0 < p" and "0 < n" and "n < 2 ^ 53"
  shows "linspace 0 (of_int n) (int p + 1) = Inr (map (sample n p) [0..<Suc p])"
proof -
  have delta: "fl64 (of_int n - 0) = of_int n"
    using fl64_of_int_exact [of n] assms by simp
  have "0 < fl64 (of_int n / of_nat p)"
    using assms by (intro fl64_pos) simp
  then have step: "fl64 (of_int n / of_int (int p)) \<noteq> 0" by simp
  have upd: "(map f [0..<Suc p])[p := v] = map (\<lambda>i. if i = p then v else f i) [0..<Suc p]"
    for f :: "nat \<Rightarrow> real" and v
    by (rule nth_equalityI) (auto simp: nth_list_update nth_append)
  have "linspace 0 (of_int n) (int p + 1) =
          Inr ((map (\<lambda>i. fl64 (fl64 (of_nat i * fl64 (of_int n / of_int (int p))) + 0))
                  [0..<Suc p])[p := of_int n])"
    using assms(1) step delta
    by (simp add: linspace_def Let_def nat_add_distrib del: upt_Suc)
  also have "\<dots> = Inr (map (sample n p) [0..<Suc p])"
    unfolding upd by (simp add: sample_def del: upt_Suc)
  finally show ?thesis .
qed

lemma sample_0: "0 < p \<Longrightarrow> sample n p 0 = 0"
  by (simp add: sample_def fl64_0)

lemma sample_last: "sample n p p = of_int n"
  by (simp add: sample_def)

lemma sample_error:
  assumes "0 < p" and "0 < n" and "i \<le> p"
  shows "\<bar>sample n p i - of_nat i * (of_int n / of_nat p)\<bar> \<le> of_int n / 2 ^ 51"
proof -
  define d :: real where "d = of_int n / of_nat p"
  have d: "0 < d" using assms by (simp add: d_def)
  have n0: "0 \<le> (of_int n :: real) / 2 ^ 51" using assms by simp
  consider (last) "i = p" | (zero) "i = 0" "i \<noteq> p" | (mid) "0 < i" "i < p"
    using assms(3) by fastforce
  then show ?thesis
  proof cases
    case last
    then show ?thesis using assms n0 by (simp add: sample_def)
  next
    case zero
    then show ?thesis using n0 by (simp add: sample_def fl64_0)
  next
    case mid
    define c :: real where "c = of_nat i"
    have c: "0 < c" using mid by (simp add: c_def)
    have s: "sample n p i = fl64 (fl64 (c * fl64 d))"
      using mid by (simp add: sample_def c_def d_def)
    have "c \<le> of_nat p" using mid by (simp add: c_def)
    then have "c * d \<le> of_nat p * d" using d by (intro mult_right_mono) simp_all
    also have "of_nat p * d = of_int n" using assms(1) by (simp add: d_def)
    finally have cd: "c * d \<le> of_int n" .
    have cd0: "0 \<le> c * d" using c d by simp
    have e: "c * d * (4 / 2 ^ 53) \<le> of_int n / 2 ^ 51"
      using cd by simp
    have lo: "c * d - c * d * (4 / 2 ^ 53) \<le> sample n p i"
      using sample_bounds(1) [OF d c] by (simp add: s algebra_simps)
    have hi: "sample n p i \<le> c * d + c * d * (4 / 2 ^ 53)"
      using sample_bounds(2) [OF d c] by (simp add: s algebra_simps)
    show ?thesis using lo hi e unfolding c_def [symmetric] d_def [symmetric] by linarith
  qed
qed

lemma sample_exact:
  assumes "0 < p" and "0 \<le> q" and "q * int p < 2 ^ 53" and "i \<le> p"
  shows "sample (q * int p) p i = of_int (int i * q)"
proof (cases "i = p")
  case True
  then show ?thesis by (simp add: sample_def mult.commute)
next
  case False
  have "q \<le> q * int p" using assms(1,2) by (simp add: mult_le_cancel_left1)
  then have q: "q < 2 ^ 53" using assms(3) by linarith
  have "int i * q \<le> int p * q" using assms(2,4) by (intro mult_right_mono) simp_all
  then have iq: "int i * q < 2 ^ 53" using assms(3) by (simp add: mult.commute)
  have iq0: "0 \<le> int i * q" using assms(2) by simp
  have d: "(of_int (q * int p) :: real) / of_nat p = of_int q" using assms(1) by simp
  have s1: "fl64 (of_int q) = of_int q" by (rule fl64_of_int_exact [OF assms(2) q])
  have m: "(of_nat i :: real) * of_int q = of_int (int i * q)" by simp
  have s2: "fl64 (of_int (int i * q)) = of_int (int i * q)"
    by (rule fl64_of_int_exact [OF iq0 iq])
  show ?thesis
    using False unfolding sample_def d s1 m by (simp only: if_False add_0_right s2)
qed

lemma boundary_0: "0 < p \<Longrightarrow> boundary n p 0 = 0"
  by (simp add: boundary_def sample_0 rint_def)

lemma boundary_last: "boundary n p p = n"
  by (simp add: boundary_def sample_last rint_of_int)

lemma boundary_step:
  assumes "0 < p" and "int p \<le> n" and "n < 2 ^ 25" and "i < p"
  shows "n div int p \<le> boundary n p (Suc i) - boundary n p i
       \<and> boundary n p (Suc i) - boundary n p i \<le> n div int p + 1"
proof (cases "int p dvd n")
  case True
  define q where "q = n div int p"
  have n: "n = q * int p" using True by (simp add: q_def)
  have q0: "0 \<le> q" using assms(1,2) by (simp add: q_def pos_imp_zdiv_nonneg_iff)
  have lt: "q * int p < 2 ^ 53" using assms(3) n by simp
  have a: "boundary n p (Suc i) = int (Suc i) * q"
    using sample_exact [OF assms(1) q0 lt, of "Suc i"] assms(4)
    unfolding boundary_def n by (simp only: rint_of_int Suc_leI)
  have b: "boundary n p i = int i * q"
    using sample_exact [OF assms(1) q0 lt, of i] assms(4)
    unfolding boundary_def n by (simp only: rint_of_int less_imp_le)
  show ?thesis unfolding a b q_def [symmetric] by (simp add: algebra_simps)
next
  case False
  define q where "q = n div int p"
  define r where "r = n mod int p"
  define D :: real where "D = of_int n / of_nat p"
  define P :: real where "P = of_nat p"
  define N :: real where "N = of_int n"
  have Ppos: "0 < P" using assms(1) by (simp add: P_def)
  have npos: "0 < n" using assms(1,2) by linarith
  have rs: "0 \<le> r" "r < int p"
    unfolding r_def using assms(1) by simp_all
  have rne: "r \<noteq> 0"
    using False by (simp add: r_def dvd_eq_mod_eq_0)
  have r1: "1 \<le> r" and r2: "r \<le> int p - 1"
    using rs rne by linarith+
  have "n = q * int p + r" by (simp add: q_def r_def)
  then have "N = of_int q * P + of_int r"
    unfolding N_def P_def by (metis of_int_add of_int_mult of_int_of_nat_eq)
  then have Dq: "D = of_int q + of_int r / P"
    using Ppos by (simp add: D_def N_def [symmetric] P_def [symmetric] field_simps)
  have "(1::real) \<le> of_int r" using r1 by linarith
  then have "1 / P \<le> of_int r / P" using Ppos by (intro divide_right_mono) simp_all
  then have Dlo: "of_int q + 1 / P \<le> D" using Dq by simp
  have "(of_int r :: real) \<le> P - 1" using r2 unfolding P_def by linarith
  then have "of_int r / P \<le> (P - 1) / P" using Ppos by (intro divide_right_mono) simp_all
  also have "(P - 1) / P = 1 - 1 / P" using Ppos by (simp add: field_simps)
  finally have Dhi: "D \<le> of_int q + 1 - 1 / P" using Dq by simp
  have "(of_int n :: real) < of_int (2 ^ 25)"
    using assms(3) by (simp only: of_int_less_iff)
  then have Nlt: "N < 2 ^ 25" by (simp add: N_def)
  have "int p < 2 ^ 25" using assms(2,3) by linarith
  then have "(of_int (int p) :: real) < of_int (2 ^ 25)"
    by (simp only: of_int_less_iff)
  then have Plt: "P < 2 ^ 25" by (simp add: P_def)
  have Npos: "0 < N" using npos by (simp add: N_def)
  have "N * P < 2 ^ 25 * 2 ^ 25"
    using Nlt Plt Npos Ppos by (intro mult_strict_mono) simp_all
  then have NP: "N * P < 2 ^ 50" by simp
  have eps: "2 * (N / 2 ^ 51) < 1 / P"
  proof -
    have "2 * (N / 2 ^ 51) = N / 2 ^ 50" by simp
    also have "\<dots> < 1 / P" using NP Ppos by (simp add: field_simps)
    finally show ?thesis .
  qed
  have e1: "\<bar>sample n p (Suc i) - of_nat (Suc i) * D\<bar> \<le> N / 2 ^ 51"
    using sample_error [OF assms(1) npos, of "Suc i"] assms(4)
    by (simp add: D_def N_def)
  have e0: "\<bar>sample n p i - of_nat i * D\<bar> \<le> N / 2 ^ 51"
    using sample_error [OF assms(1) npos, of i] assms(4)
    by (simp add: D_def N_def)
  have s: "of_nat (Suc i) * D = of_nat i * D + D" by (simp add: algebra_simps)
  have up: "of_int (boundary n p (Suc i)) \<le> sample n p (Suc i) + 1 / 2"
    unfolding boundary_def by (rule rint_upper)
  have lo: "sample n p i - 1 / 2 \<le> of_int (boundary n p i)"
    unfolding boundary_def by (rule rint_lower)
  have up0: "of_int (boundary n p i) \<le> sample n p i + 1 / 2"
    unfolding boundary_def by (rule rint_upper)
  have lo1: "sample n p (Suc i) - 1 / 2 \<le> of_int (boundary n p (Suc i))"
    unfolding boundary_def by (rule rint_lower)
  have "(of_int (boundary n p (Suc i)) :: real) - of_int (boundary n p i) < of_int q + 2"
    using up lo e1 e0 s eps Dhi by linarith
  then have "(of_int (boundary n p (Suc i) - boundary n p i) :: real) < of_int (q + 2)"
    by simp
  then have A: "boundary n p (Suc i) - boundary n p i < q + 2"
    by (simp only: of_int_less_iff)
  have "(of_int q :: real) - 1 < of_int (boundary n p (Suc i)) - of_int (boundary n p i)"
    using up0 lo1 e1 e0 s eps Dlo by linarith
  then have "(of_int (q - 1) :: real) < of_int (boundary n p (Suc i) - boundary n p i)"
    by simp
  then have B: "q - 1 < boundary n p (Suc i) - boundary n p i"
    by (simp only: of_int_less_iff)
  show ?thesis using A B unfolding q_def by linarith
qed

section \<open>The boundaries when there are at least as many scenes as processes\<close>

lemma astype_int32_id:
  "- 2147483648 \<le> v \<Longrightarrow> v < 2147483648 \<Longrightarrow> astype_int32 v = v"
  by (simp add: astype_int32_def)

lemma boundary_Suc_less:
  assumes "0 < p" and "int p \<le> n" and "n < 2 ^ 25" and "i < p"
  shows "boundary n p i < boundary n p (Suc i)"
proof -
  have "0 < n div int p"
    using pos_imp_zdiv_pos_iff [of "int p" n] assms(1,2) by simp
  then show ?thesis using boundary_step [OF assms] by linarith
qed

lemma boundary_mono:
  assumes "0 < p" and "int p \<le> n" and "n < 2 ^ 25"
  shows "j \<le> p \<Longrightarrow> i \<le> j \<Longrightarrow> boundary n p i \<le> boundary n p j"
proof (induction j)
  case 0
  then show ?case by simp
next
  case (Suc j)
  show ?case
  proof (cases "i = Suc j")
    case True
    then show ?thesis by simp
  next
    case False
    then have "i \<le> j" using Suc.prems by simp
    moreover have "j < p" using Suc.prems by simp
    ultimately show ?thesis
      using Suc.IH boundary_Suc_less [OF assms, of j] by simp
  qed
qed

lemma boundary_range:
  assumes "0 < p" and "int p \<le> n" and "n < 2 ^ 25" and "i \<le> p"
  shows "0 \<le> boundary n p i \<and> boundary n p i \<le> n"
  using boundary_mono [OF assms(1,2,3), of i 0] boundary_mono [OF assms(1,2,3), of p i]
    assms(1,4) boundary_0 [of p n] boundary_last [of n p]
  by simp

lemma partition_inds_boundaries:
  assumes "0 < p" and "int p \<le> n" and "n < 2 ^ 25"
  shows "partition_inds n (int p) = Inr (map (boundary n p) [0..<Suc p])"
proof -
  have n0: "0 < n" using assms(1,2) by linarith
  have "(2::int) ^ 25 \<le> 2 ^ 53" by simp
  then have n53: "n < 2 ^ 53" using assms(3) by linarith
  have c: "astype_int32 (rint (sample n p i)) = boundary n p i" if "i \<le> p" for i
  proof -
    have "0 \<le> boundary n p i \<and> boundary n p i \<le> n"
      by (rule boundary_range [OF assms that])
    then have "- 2147483648 \<le> boundary n p i" "boundary n p i < 2147483648"
      using assms(3) by simp_all
    then show ?thesis unfolding boundary_def by (rule astype_int32_id)
  qed
  have "map (\<lambda>v. astype_int32 (rint v)) (map (sample n p) [0..<Suc p])
          = map (boundary n p) [0..<Suc p]"
    unfolding map_map by (rule map_cong) (auto simp: c simp del: upt_Suc)
  then show ?thesis
    by (simp add: partition_inds_def linspace_samples [OF assms(1) n0 n53] del: upt_Suc)
qed

lemma py_slice_boundaries:
  assumes "0 \<le> lo" and "lo \<le> hi" and "hi \<le> int (length xs)"
  shows "py_slice xs (Some lo) (Some hi) = take (nat (hi - lo)) (drop (nat lo) xs)"
proof -
  have d: "nat hi - nat lo = nat (hi - lo)" using assms by simp
  have h: "nat hi \<le> length xs" and l: "nat lo \<le> length xs" using assms by linarith+
  show ?thesis using assms d h l by (simp add: py_slice_def slice_bound_def min_def Let_def)
qed

lemma concat_slices:
  fixes c :: "nat \<Rightarrow> nat"
  assumes "c 0 = 0" and "\<forall>i<p. c i \<le> c (Suc i)"
  shows "concat (map (\<lambda>i. take (c (Suc i) - c i) (drop (c i) xs)) [0..<p]) = take (c p) xs"
  using assms(2)
proof (induction p)
  case 0
  then show ?case by (simp add: assms(1))
next
  case (Suc p)
  have le: "c p \<le> c (Suc p)" using Suc.prems by simp
  have "take (c (Suc p)) xs = take (c p + (c (Suc p) - c p)) xs" using le by simp
  also have "\<dots> = take (c p) xs @ take (c (Suc p) - c p) (drop (c p) xs)"
    by (rule take_add)
  finally show ?case using Suc by simp
qed

lemma interval_union:
  fixes b :: "nat \<Rightarrow> int"
  assumes "\<forall>i<p. b i \<le> b (Suc i)"
  shows "(\<Union>i<p. {b i..<b (Suc i)}) = {b 0..<b p}"
  using assms
proof (induction p)
  case 0
  then show ?case by simp
next
  case (Suc p)
  have m: "b 0 \<le> b p"
    using Suc.prems by (induction p) (auto intro: order_trans)
  have "(\<Union>i<Suc p. {b i..<b (Suc i)}) = (\<Union>i<p. {b i..<b (Suc i)}) \<union> {b p..<b (Suc p)}"
    by (simp add: lessThan_Suc Un_commute)
  also have "\<dots> = {b 0..<b p} \<union> {b p..<b (Suc p)}" using Suc by simp
  also have "\<dots> = {b 0..<b (Suc p)}" using m Suc.prems by (auto simp: ivl_disj_un)
  finally show ?case .
qed

text \<open>
  Claim C1, as the code has it.  For a scene list of length \<open>L < 2 ^ 25\<close> and a process
  count \<open>P\<close> with \<open>0 < P \<le> L\<close> the boundary array has \<open>P + 1\<close> strictly increasing entries from \<open>0\<close> to \<open>L\<close>;
  process \<open>i\<close> is handed exactly the scenes at the indices from \<open>inds[i]\<close> up to, not
  including, \<open>inds[i + 1]\<close>; these index ranges are pairwise disjoint and their union is
  \<open>{0..<L}\<close>, so that the assignments, in process order, concatenate to the scene list;
  and the sizes of two assignments differ by at most one.  The double-precision
  arithmetic of \<^verbatim>\<open>np.linspace\<close> and the cast to \<^verbatim>\<open>np.int32\<close> are part of the model; the
  bound on \<open>L\<close> keeps the rounding error below the distance of the samples from a
  tie and the boundaries inside the 32-bit range.
\<close>

theorem scenes_partitioned_evenly:
  assumes "list_at w a = Some xs" and "0 < P" and "P \<le> int (length xs)"
    and "length xs < 2 ^ 25"
  shows "\<exists>inds. partition_inds (int (length xs)) P = Inr inds
      \<and> length inds = nat P + 1 \<and> inds ! 0 = 0 \<and> inds ! nat P = int (length xs)
      \<and> (\<forall>i<nat P. inds ! i < inds ! Suc i)
      \<and> (\<forall>i<nat P. assigned_scenes cls a (int i) P w =
             Some (take (nat (inds ! Suc i - inds ! i)) (drop (nat (inds ! i)) xs)))
      \<and> (\<Union>i<nat P. {inds ! i..<inds ! Suc i}) = {0..<int (length xs)}
      \<and> (\<forall>i<nat P. \<forall>j<nat P. i \<noteq> j \<longrightarrow>
             {inds ! i..<inds ! Suc i} \<inter> {inds ! j..<inds ! Suc j} = {})
      \<and> (\<forall>i<nat P. \<forall>j<nat P.
             \<bar>(inds ! Suc i - inds ! i) - (inds ! Suc j - inds ! j)\<bar> \<le> 1)
      \<and> concat (map (\<lambda>i. the (assigned_scenes cls a (int i) P w)) [0..<nat P]) = xs"
proof -
  define p where "p = nat P"
  define n where "n = int (length xs)"
  define b where "b = boundary n p"
  define inds where "inds = map b [0..<Suc p]"
  have p0: "0 < p" and pP: "int p = P" using assms(2) by (simp_all add: p_def)
  have pn: "int p \<le> n" using assms(3) pP by (simp add: n_def)
  have "int (length xs) < int (2 ^ 25)" using assms(4) by (simp only: of_nat_less_iff)
  then have nb: "n < 2 ^ 25" by (simp add: n_def)
  have pi: "partition_inds n P = Inr inds"
    using partition_inds_boundaries [OF p0 pn nb] by (simp add: inds_def b_def pP)
  have len: "length inds = p + 1" by (simp add: inds_def)
  have nth: "inds ! i = b i" if "i \<le> p" for i
    using that unfolding inds_def by (metis add_0 le_imp_less_Suc nth_map_upt diff_zero)
  have b0: "b 0 = 0" using boundary_0 [OF p0] by (simp add: b_def)
  have bp: "b p = n" using boundary_last by (simp add: b_def)
  have step: "n div int p \<le> b (Suc i) - b i \<and> b (Suc i) - b i \<le> n div int p + 1"
    if "i < p" for i
    using boundary_step [OF p0 pn nb that] by (simp add: b_def)
  have less: "b i < b (Suc i)" if "i < p" for i
    using boundary_Suc_less [OF p0 pn nb that] by (simp add: b_def)
  have mono: "b i \<le> b j" if "j \<le> p" "i \<le> j" for i j
    using boundary_mono [OF p0 pn nb that] by (simp add: b_def)
  have range: "0 \<le> b i \<and> b i \<le> n" if "i \<le> p" for i
    using boundary_range [OF p0 pn nb that] by (simp add: b_def)
  let ?w1 = "if int (length xs) mod P \<noteq> 0 then print_line warn_divisor w else w"
  have sp: "scenes_for_processes a P w = (Inr a, ?w1)"
    by (rule scenes_for_processes_keep [OF assms(1,2,3)])
  have l1: "list_at ?w1 a = Some xs"
    using assms(1) by (simp add: list_at_print_line)
  have pi': "partition_inds (int (length xs)) P = Inr inds"
    using pi by (simp add: n_def)
  have asg: "assigned_scenes cls a (int i) P w =
               Some (take (nat (b (Suc i) - b i)) (drop (nat (b i)) xs))" if "i < p" for i
  proof -
    have g0: "py_getitem inds (int i) = Inr (b i)"
      using that by (simp add: py_getitem_nonneg len nth)
    have g1: "py_getitem inds (int i + 1) = Inr (b (Suc i))"
      using that py_getitem_nonneg [of "int i + 1" inds] nth [of "Suc i"]
      by (simp add: len nat_add_distrib)
    have r0: "0 \<le> b i" using range [of i] that by simp
    have r1: "b (Suc i) \<le> int (length xs)" using range [of "Suc i"] that by (simp add: n_def)
    have le: "b i \<le> b (Suc i)" using less [OF that] by simp
    show ?thesis
      using assigned_scenes_returns [OF sp l1 pi' g0 g1, of cls]
      by (simp add: py_slice_boundaries [OF r0 le r1])
  qed
  have un: "(\<Union>i<p. {b i..<b (Suc i)}) = {0..<n}"
  proof -
    have "\<forall>i<p. b i \<le> b (Suc i)" using less by (simp add: less_imp_le)
    then show ?thesis using interval_union [of p b] b0 bp by simp
  qed
  have dj: "{b i..<b (Suc i)} \<inter> {b j..<b (Suc j)} = {}" if "i < p" "j < p" "i \<noteq> j" for i j
  proof (cases "i < j")
    case True
    then have "b (Suc i) \<le> b j" using mono [of j "Suc i"] that by simp
    then show ?thesis by auto
  next
    case False
    then have "b (Suc j) \<le> b i" using mono [of i "Suc j"] that by simp
    then show ?thesis by auto
  qed
  have bal: "\<bar>(b (Suc i) - b i) - (b (Suc j) - b j)\<bar> \<le> 1" if "i < p" "j < p" for i j
    using step [OF that(1)] step [OF that(2)] by linarith
  have cc: "concat (map (\<lambda>i. the (assigned_scenes cls a (int i) P w)) [0..<p]) = xs"
  proof -
    define c where "c = (\<lambda>i. nat (b i))"
    have e: "map (\<lambda>i. the (assigned_scenes cls a (int i) P w)) [0..<p]
               = map (\<lambda>i. take (c (Suc i) - c i) (drop (c i) xs)) [0..<p]"
    proof (rule map_cong [OF refl])
      fix i assume "i \<in> set [0..<p]"
      then have i: "i < p" by simp
      have "nat (b (Suc i) - b i) = c (Suc i) - c i"
        using range [of i] less [OF i] i unfolding c_def by linarith
      then show "the (assigned_scenes cls a (int i) P w) = take (c (Suc i) - c i) (drop (c i) xs)"
        by (simp add: asg [OF i] c_def)
    qed
    have c0: "c 0 = 0" by (simp add: c_def b0)
    have cm: "\<forall>i<p. c i \<le> c (Suc i)"
    proof (intro allI impI)
      fix i assume "i < p"
      then have "b i \<le> b (Suc i)" using less [of i] by simp
      then show "c i \<le> c (Suc i)" unfolding c_def by (rule nat_mono)
    qed
    have cp: "c p = length xs" by (simp add: c_def bp n_def)
    have "concat (map (\<lambda>i. take (c (Suc i) - c i) (drop (c i) xs)) [0..<p]) = xs"
      using concat_slices [OF c0 cm, of xs] cp by simp
    then show ?thesis unfolding e .
  qed
  have "partition_inds (int (length xs)) P = Inr inds
      \<and> length inds = nat P + 1 \<and> inds ! 0 = 0 \<and> inds ! nat P = int (length xs)
      \<and> (\<forall>i<nat P. inds ! i < inds ! Suc i)
      \<and> (\<forall>i<nat P. assigned_scenes cls a (int i) P w =
             Some (take (nat (inds ! Suc i - inds ! i)) (drop (nat (inds ! i)) xs)))
      \<and> (\<Union>i<nat P. {inds ! i..<inds ! Suc i}) = {0..<int (length xs)}
      \<and> (\<forall>i<nat P. \<forall>j<nat P. i \<noteq> j \<longrightarrow>
             {inds ! i..<inds ! Suc i} \<inter> {inds ! j..<inds ! Suc j} = {})
      \<and> (\<forall>i<nat P. \<forall>j<nat P.
             \<bar>(inds ! Suc i - inds ! i) - (inds ! Suc j - inds ! j)\<bar> \<le> 1)
      \<and> concat (map (\<lambda>i. the (assigned_scenes cls a (int i) P w)) [0..<nat P]) = xs"
    unfolding p_def [symmetric] n_def [symmetric]
    using pi len b0 bp less asg un dj bal cc
    by (simp add: nth n_def [symmetric])
  then show ?thesis by blast
qed

theorem scenes_partitioned_evenly_witness:
  "\<exists>inds. partition_inds (int (length [''s0'', ''s1'', ''s2'', ''s3'', ''s4''])) 3 = Inr inds
      \<and> length inds = nat 3 + 1 \<and> inds ! 0 = 0 \<and> inds ! nat 3 = int (length [''s0'', ''s1'', ''s2'', ''s3'', ''s4''])
      \<and> (\<forall>i<nat 3. inds ! i < inds ! Suc i)
      \<and> (\<forall>i<nat 3. assigned_scenes (class_attrs 6) 0 (int i) 3 (scene_world [''s0'', ''s1'', ''s2'', ''s3'', ''s4'']) =
             Some (take (nat (inds ! Suc i - inds ! i)) (drop (nat (inds ! i)) [''s0'', ''s1'', ''s2'', ''s3'', ''s4''])))
      \<and> (\<Union>i<nat 3. {inds ! i..<inds ! Suc i}) = {0..<int (length [''s0'', ''s1'', ''s2'', ''s3'', ''s4''])}
      \<and> (\<forall>i<nat 3. \<forall>j<nat 3. i \<noteq> j \<longrightarrow>
             {inds ! i..<inds ! Suc i} \<inter> {inds ! j..<inds ! Suc j} = {})
      \<and> (\<forall>i<nat 3. \<forall>j<nat 3.
             \<bar>(inds ! Suc i - inds ! i) - (inds ! Suc j - inds ! j)\<bar> \<le> 1)
      \<and> concat (map (\<lambda>i. the (assigned_scenes (class_attrs 6) 0 (int i) 3 (scene_world [''s0'', ''s1'', ''s2'', ''s3'', ''s4'']))) [0..<nat 3]) = [''s0'', ''s1'', ''s2'', ''s3'', ''s4'']"
proof -
  have h: "list_at (scene_world [''s0'', ''s1'', ''s2'', ''s3'', ''s4'']) 0 = Some [''s0'', ''s1'', ''s2'', ''s3'', ''s4'']"
    by (rule list_at_scene_world)
  have pos: "(0::int) < 3" by simp
  have le: "(3::int) \<le> int (length [''s0'', ''s1'', ''s2'', ''s3'', ''s4''])" by simp
  have bound: "length [''s0'', ''s1'', ''s2'', ''s3'', ''s4''] < 2 ^ 25" by simp
  show ?thesis
    by (rule scenes_partitioned_evenly [OF h pos le bound])
qed

section \<open>More processes than scenes\<close>



lemma truediv_in_range:
  assumes "0 < L" and "L < P" and "P < 2 ^ 25"
  shows "\<bar>fl64 (of_int P / of_int L)\<bar> < 2 ^ 1024"
proof -
  define x :: real where "x = of_int P / of_int L"
  have x0: "0 < x" using assms by (simp add: x_def)
  have "(1::real) \<le> of_int L" using assms(1) by simp
  then have "x \<le> of_int P" using assms(1,2) by (simp add: x_def field_simps)
  moreover have "(of_int P :: real) < of_int (2 ^ 25)"
    using assms(3) by (simp only: of_int_less_iff)
  ultimately have xb: "x < 2 ^ 25" by simp
  have "fl64 x \<le> x * (1 + 1 / 2 ^ 53)" by (rule fl64_rel(2) [OF x0])
  also have "\<dots> \<le> x * 2" using x0 by (intro mult_left_mono) simp_all
  also have "\<dots> < 2 ^ 25 * 2" using xb by simp
  also have "\<dots> < 2 ^ 1024" by simp
  finally have "fl64 x < 2 ^ 1024" .
  moreover have "0 < fl64 x" by (rule fl64_pos [OF x0])
  ultimately show ?thesis by (simp add: x_def)
qed




section \<open>What the two classes do in general\<close>

text \<open>
  The display offset: the manipulation class indexes the device list with
  \<^verbatim>\<open>process_ind % len(devices)\<close>, the navigation class with \<open>0\<close>.
\<close>

lemma manip_x_display_Some:
  "manip_x_display (Some ds) i =
     Inr (if ds = [] then PNone else PStr (''0.'' @ fmt_d (ds ! nat (i mod int (length ds)))))"
proof (cases "ds = []")
  case True
  then show ?thesis by (simp add: manip_x_display_def)
next
  case False
  then have l: "0 < int (length ds)" by simp
  have "0 \<le> i mod int (length ds)" "i mod int (length ds) < int (length ds)"
    using l by simp_all
  then show ?thesis using False
    by (simp add: manip_x_display_def py_getitem_nonneg)
qed

lemma nav_x_display_Some:
  "nav_x_display (Some ds) =
     Inr (if ds = [] then PNone else PStr (''0.'' @ fmt_d (ds ! 0)))"
  by (cases ds) (simp_all add: nav_x_display_def py_getitem_def)

lemma dict_setitem_Inr:
  assumes "dict_setitem a k v w = (Inr u, w1)"
  shows "\<exists>d. dict_at w a = Some d \<and> dict_at w1 a = Some (AList.update k v d)"
  using assms
  by (auto simp: dict_setitem_def dict_at_def split: option.splits if_splits pyobj.splits)

lemma map_of_update_same: "map_of (AList.update k v d) k = Some v"
  by (simp add: update_conv')

lemma manip_env_args_display:
  assumes "manip_env_args cls i (Some ds) res w = (Inr res1, w1)"
  shows "x_display_of res1 w1 =
     Some (if ds = [] then PNone else PStr (''0.'' @ fmt_d (ds ! nat (i mod int (length ds)))))"
proof -
  let ?a = "length (heap w)"
  let ?v = "if ds = [] then PNone else PStr (''0.'' @ fmt_d (ds ! nat (i mod int (length ds))))"
  obtain r w2 where d: "dict_update_from ?a (ENV_ARGS cls) (w\<lparr>heap := heap w @ [DictObj []]\<rparr>) = (r, w2)"
    by (cases "dict_update_from ?a (ENV_ARGS cls) (w\<lparr>heap := heap w @ [DictObj []]\<rparr>)")
  obtain r3 w3 where s: "dict_setitem ?a ''x_display'' ?v w2 = (r3, w3)"
    by (cases "dict_setitem ?a ''x_display'' ?v w2")
  have e: "res1 = AList.update ''env_args'' (PRef ?a) res \<and> w1 = w3 \<and> (\<exists>u. r3 = Inr u)"
    using assms d s
    by (auto simp: manip_env_args_def alloc_eq manip_x_display_Some split: sum.splits)
  then obtain u where "dict_setitem ?a ''x_display'' ?v w2 = (Inr u, w1)" using s by auto
  then obtain dd where "dict_at w1 ?a = Some (AList.update ''x_display'' ?v dd)"
    using dict_setitem_Inr by blast
  then show ?thesis using e by (simp add: x_display_of_def map_of_update_same)
qed

lemma nav_env_args_display:
  assumes "nav_env_args (Some ds) res w = (Inr res1, w1)"
  shows "x_display_of res1 w1 =
     Some (if ds = [] then PNone else PStr (''0.'' @ fmt_d (ds ! 0)))"
proof -
  let ?v = "if ds = [] then PNone else PStr (''0.'' @ fmt_d (ds ! 0))"
  obtain a where a: "map_of res ''env_args'' = Some (PRef a)"
    and s: "\<exists>u. dict_setitem a ''x_display'' ?v w = (Inr u, w1)" and r: "res1 = res"
    using assms
    by (auto simp: nav_env_args_def nav_x_display_Some
             split: option.splits pyval.splits sum.splits prod.splits)
  obtain dd where "dict_at w1 a = Some (AList.update ''x_display'' ?v dd)"
    using s dict_setitem_Inr by blast
  then show ?thesis using a r by (simp add: x_display_of_def map_of_update_same)
qed

lemma manip_display_follows_process_index:
  assumes "task_sampler_args Manip m cls i P (Some ds) seeds dc w = (Inr res, w1)"
  shows "x_display_of res w1 =
     Some (if ds = [] then PNone else PStr (''0.'' @ fmt_d (ds ! nat (i mod int (length ds)))))"
  using assms
  by (cases m)
     (auto simp: method_defs split: prod.splits sum.splits dest: manip_env_args_display)

lemma nav_display_reads_first_device:
  assumes "task_sampler_args Nav m cls i P (Some ds) seeds dc w = (Inr res, w1)"
  shows "x_display_of res w1 =
     Some (if ds = [] then PNone else PStr (''0.'' @ fmt_d (ds ! 0)))"
  using assms
  by (cases m)
     (auto simp: method_defs split: prod.splits sum.splits dest: nav_env_args_display)

text \<open>
  The store: a call of a method of the manipulation class only allocates, so every
  object that existed before the call, \<^verbatim>\<open>ENV_ARGS\<close> included, is as it was.
\<close>

lemma kept_refl: "take (length (heap w)) (heap w) = heap w"
  by simp

lemma kept_trans:
  assumes "take (length (heap w)) (heap w1) = heap w"
    and "take (length (heap w1)) (heap w2) = heap w1"
  shows "take (length (heap w)) (heap w2) = heap w"
proof -
  have "length (heap w) \<le> length (heap w1)"
    using assms(1) by (metis length_take min.cobounded2 min.commute)
  then have "take (length (heap w)) (heap w2) = take (length (heap w)) (take (length (heap w1)) (heap w2))"
    by (simp add: min_def)
  then show ?thesis using assms by simp
qed

lemma kept_scenes_for_processes:
  "take (length (heap w)) (heap (snd (scenes_for_processes a P w))) = heap w"
  by (auto simp: scenes_for_processes_def py_truediv_def alloc_eq heap_print_line Let_def
           split: option.splits)

lemma kept_get_sampler_args:
  "take (length (heap w)) (heap (snd (get_sampler_args_for_scene_split cls a i P seeds dc w)))
     = heap w"
proof -
  obtain r w1 where s: "scenes_for_processes a P w = (r, w1)"
    by (cases "scenes_for_processes a P w")
  have k1: "take (length (heap w)) (heap w1) = heap w"
    using kept_scenes_for_processes [of w a P] s by simp
  have k2: "take (length (heap w)) (heap w1 @ zs) = heap w" for zs
  proof -
    have "length (heap w) \<le> length (heap w1)"
      using k1 by (metis length_take min.cobounded2 min.commute)
    then show ?thesis using k1 by simp
  qed
  show ?thesis
    using s k1 k2
    by (auto simp: get_sampler_args_for_scene_split_def alloc_eq
             split: sum.splits option.splits)
qed

lemma kept_manip_env_args:
  "take (length (heap w)) (heap (snd (manip_env_args cls i devices res w))) = heap w"
  by (auto simp: manip_env_args_def alloc_eq dict_update_from_def dict_setitem_def dict_at_def
           split: sum.splits option.splits prod.splits pyobj.splits if_splits)

lemma manip_keeps_store:
  "take (length (heap w)) (heap (snd (task_sampler_args Manip m cls i P devices seeds dc w)))
     = heap w"
proof -
  obtain r w1 where g:
    "get_sampler_args_for_scene_split cls (mode_scenes cls m) i P seeds dc w = (r, w1)"
    by (cases "get_sampler_args_for_scene_split cls (mode_scenes cls m) i P seeds dc w")
  have k1: "take (length (heap w)) (heap w1) = heap w"
    using kept_get_sampler_args [of w cls "mode_scenes cls m" i P seeds dc] g by simp
  have k2: "take (length (heap w)) (heap (snd (manip_env_args cls i devices res1 w1))) = heap w"
    for res1
    by (rule kept_trans [OF k1 kept_manip_env_args])
  show ?thesis
    using g k1 k2
    by (cases m) (auto simp: method_defs split: sum.splits)
qed

section \<open>The seed of a process\<close>

lemma scenes_for_processes_returns:
  assumes "list_at w a = Some xs" and "xs \<noteq> []" and "0 < P" and "P < 2 ^ 25"
  shows "\<exists>a1 w1 ys. scenes_for_processes a P w = (Inr a1, w1) \<and> list_at w1 a1 = Some ys"
proof (cases "int (length xs) < P")
  case True
  have L0: "0 < int (length xs)" using assms(2) by simp
  show ?thesis
    using scenes_for_processes_oversample
      [OF assms(1,2) True truediv_in_range [OF L0 True assms(4)]]
    by (simp add: Let_def list_at_append2_new)
next
  case False
  then show ?thesis
    using scenes_for_processes_keep [OF assms(1,3)] assms(1)
    by (simp add: list_at_print_line)
qed

lemma get_sampler_args_with_seeds:
  "get_sampler_args_for_scene_split cls a i P (Some s) dc w =
     (case get_sampler_args_for_scene_split cls a i P None dc w of
        (Inl e, w1) \<Rightarrow> (Inl e, w1)
      | (Inr res, w1) \<Rightarrow>
         (case py_getitem s i of
            Inl e \<Rightarrow> (Inl e, w1)
          | Inr v \<Rightarrow> (Inr (AList.update ''seed'' (PInt v) res), w1)))"
  by (auto simp: get_sampler_args_for_scene_split_def seed_for_def alloc_eq
           split: prod.splits sum.splits option.splits)

lemma py_getitem_error: "py_getitem zs i = Inl e \<Longrightarrow> e = IndexError"
  by (auto simp: py_getitem_def Let_def split: if_splits)

lemma py_getitem_Inr:
  "py_getitem zs i = Inr v \<Longrightarrow> - int (length zs) \<le> i \<and> i < int (length zs)"
  by (auto simp: py_getitem_def Let_def split: if_splits)

lemma get_sampler_args_seedless_returns:
  assumes "list_at w a = Some xs" and "xs \<noteq> []" and "0 \<le> i" and "i < P" and "P < 2 ^ 25"
  shows "\<exists>res w1. get_sampler_args_for_scene_split cls a i P None dc w = (Inr res, w1)"
proof -
  have P0: "0 < P" using assms(3,4) by linarith
  obtain a1 w1 ys where sp: "scenes_for_processes a P w = (Inr a1, w1)"
    and l1: "list_at w1 a1 = Some ys"
    using scenes_for_processes_returns [OF assms(1,2) P0 assms(5)] by blast
  obtain inds where pi: "partition_inds (int (length ys)) P = Inr inds"
    and len: "length inds = nat (P + 1)"
    using partition_inds_length [of P "int (length ys)"] P0 by auto
  have g0: "py_getitem inds i = Inr (inds ! nat i)"
    using py_getitem_nonneg [OF assms(3), of inds] len assms(4) by simp
  have g1: "py_getitem inds (i + 1) = Inr (inds ! nat (i + 1))"
    using py_getitem_nonneg [of "i + 1" inds] len assms(3,4) by simp
  have sd: "seed_for None i = Inr PNone" by (simp add: seed_for_def)
  show ?thesis
    using get_sampler_args_returns [OF sp l1 pi g0 g1 sd, of cls dc] by blast
qed

lemma get_sampler_args_index_error:
  assumes "list_at w a = Some xs" and "xs \<noteq> []" and "0 < P" and "P < 2 ^ 25"
    and "0 \<le> i" and "int (length s) \<le> i"
  shows "fst (get_sampler_args_for_scene_split cls a i P (Some s) dc w) = Inl IndexError"
proof -
  obtain a1 w1 ys where sp: "scenes_for_processes a P w = (Inr a1, w1)"
    and l1: "list_at w1 a1 = Some ys"
    using scenes_for_processes_returns [OF assms(1,2,3,4)] by blast
  obtain inds where pi: "partition_inds (int (length ys)) P = Inr inds"
    and len: "length inds = nat (P + 1)"
    using partition_inds_length [of P "int (length ys)"] assms(3) by auto
  have g0: "py_getitem inds i = (if i < P + 1 then Inr (inds ! nat i) else Inl IndexError)"
    using py_getitem_nonneg [OF assms(5), of inds] len assms(3) by simp
  have g1: "py_getitem inds (i + 1) = (if i < P then Inr (inds ! nat (i + 1)) else Inl IndexError)"
    using py_getitem_nonneg [of "i + 1" inds] len assms(3,5) by simp
  have gs: "py_getitem s i = Inl IndexError"
    using py_getitem_nonneg [OF assms(5), of s] assms(6) by simp
  show ?thesis
    by (simp add: get_sampler_args_for_scene_split_def sp l1 pi g0 g1 gs alloc_eq seed_for_def)
qed

text \<open>
  Claim C9, as the code has it.  \<^verbatim>\<open>seeds[process_ind]\<close> is Python's indexing, defined
  exactly when \<open>- len(seeds) \<le> process_ind < len(seeds)\<close>.  A call where it is not
  defined fails: with the error of the same call without seeds when that call fails, and
  with \<open>IndexError\<close> when that call returns.  Whenever a dictionary is returned the index
  is in range and the \<open>seed\<close> entry is \<open>seeds[process_ind]\<close>.  For a scene list that is
  not empty, fewer than \<open>2 ^ 25\<close> processes and a process index that is not negative, the
  error for a seeds list of at most \<open>process_ind\<close> elements is \<open>IndexError\<close>, and the call
  returns when the index is below both the process count and the length of the seeds list.
\<close>

theorem seeds_indexed_by_process:
  "(py_getitem s i = Inl IndexError \<longrightarrow>
      fst (get_sampler_args_for_scene_split cls a i P (Some s) dc w) =
        (case fst (get_sampler_args_for_scene_split cls a i P None dc w) of
           Inl e \<Rightarrow> Inl e
         | Inr res \<Rightarrow> Inl IndexError))
   \<and> (\<forall>res w1. get_sampler_args_for_scene_split cls a i P (Some s) dc w = (Inr res, w1) \<longrightarrow>
         - int (length s) \<le> i \<and> i < int (length s)
         \<and> (\<exists>v. py_getitem s i = Inr v \<and> map_of res ''seed'' = Some (PInt v)))
   \<and> (list_at w a = Some xs \<and> xs \<noteq> [] \<and> 0 < P \<and> P < 2 ^ 25 \<and> 0 \<le> i
         \<and> int (length s) \<le> i \<longrightarrow>
       fst (get_sampler_args_for_scene_split cls a i P (Some s) dc w) = Inl IndexError)
   \<and> (list_at w a = Some xs \<and> xs \<noteq> [] \<and> 0 \<le> i \<and> i < P \<and> P < 2 ^ 25
         \<and> i < int (length s) \<longrightarrow>
       (\<exists>res w1. get_sampler_args_for_scene_split cls a i P (Some s) dc w = (Inr res, w1)
          \<and> map_of res ''seed'' = Some (PInt (s ! nat i))))"
proof (intro conjI impI allI)
  assume "py_getitem s i = Inl IndexError"
  then show "fst (get_sampler_args_for_scene_split cls a i P (Some s) dc w) =
        (case fst (get_sampler_args_for_scene_split cls a i P None dc w) of
           Inl e \<Rightarrow> Inl e
         | Inr res \<Rightarrow> Inl IndexError)"
    by (simp add: get_sampler_args_with_seeds split: prod.splits sum.splits)
next
  fix res w1
  assume r: "get_sampler_args_for_scene_split cls a i P (Some s) dc w = (Inr res, w1)"
  then obtain v res0 where v: "py_getitem s i = Inr v"
    and e: "res = AList.update ''seed'' (PInt v) res0"
    by (auto simp: get_sampler_args_with_seeds split: prod.splits sum.splits)
  show "- int (length s) \<le> i" and "i < int (length s)"
    using py_getitem_Inr [OF v] by simp_all
  show "\<exists>v. py_getitem s i = Inr v \<and> map_of res ''seed'' = Some (PInt v)"
    using v e by (simp add: update_conv')
next
  assume "list_at w a = Some xs \<and> xs \<noteq> [] \<and> 0 < P \<and> P < 2 ^ 25 \<and> 0 \<le> i
         \<and> int (length s) \<le> i"
  then show "fst (get_sampler_args_for_scene_split cls a i P (Some s) dc w) = Inl IndexError"
    using get_sampler_args_index_error by blast
next
  assume h: "list_at w a = Some xs \<and> xs \<noteq> [] \<and> 0 \<le> i \<and> i < P \<and> P < 2 ^ 25
         \<and> i < int (length s)"
  then obtain res0 w1 where g: "get_sampler_args_for_scene_split cls a i P None dc w = (Inr res0, w1)"
    using get_sampler_args_seedless_returns [of w a xs i P cls dc] by blast
  have v: "py_getitem s i = Inr (s ! nat i)"
    using h by (simp add: py_getitem_nonneg)
  have "get_sampler_args_for_scene_split cls a i P (Some s) dc w =
          (Inr (AList.update ''seed'' (PInt (s ! nat i)) res0), w1)"
    by (simp add: get_sampler_args_with_seeds g v)
  then show "\<exists>res w1. get_sampler_args_for_scene_split cls a i P (Some s) dc w = (Inr res, w1)
          \<and> map_of res ''seed'' = Some (PInt (s ! nat i))"
    by (simp add: update_conv')
qed

theorem seeds_indexed_by_process_witness:
  "fst (get_sampler_args_for_scene_split (class_attrs 6) 0 0 1 (Some []) False
      (scene_world [''s0''])) = Inl IndexError
   \<and> (\<exists>res w1. get_sampler_args_for_scene_split (class_attrs 6) 0 0 1 (Some [7]) False
          (scene_world [''s0'']) = (Inr res, w1)
        \<and> map_of res ''seed'' = Some (PInt 7))"
proof -
  have h: "list_at (scene_world [''s0'']) 0 = Some [''s0'']"
    by (rule list_at_scene_world)
  have t1: "fst (get_sampler_args_for_scene_split (class_attrs 6) 0 0 1 (Some []) False
      (scene_world [''s0''])) = Inl IndexError"
    using seeds_indexed_by_process [of "[]" 0 "class_attrs 6" 0 1 False "scene_world [''s0'']"
        "[''s0'']"] h
    by simp
  have t2: "\<exists>res w1. get_sampler_args_for_scene_split (class_attrs 6) 0 0 1 (Some [7]) False
          (scene_world [''s0'']) = (Inr res, w1)
        \<and> map_of res ''seed'' = Some (PInt 7)"
    using seeds_indexed_by_process [of "[7]" 0 "class_attrs 6" 0 1 False "scene_world [''s0'']"
        "[''s0'']"] h
    by simp
  show ?thesis using t1 t2 by blast
qed

text \<open>
  The claim promises an index error for every call with a seeds list of at most
  \<open>process_ind\<close> elements.  With no scenes, one process and an empty seeds list the call
  fails before it reads the seeds, with \<open>ZeroDivisionError\<close>.
\<close>

theorem empty_scenes_fail_before_seeds:
  "fst (get_sampler_args_for_scene_split (class_attrs 6) 0 0 1 (Some []) False (scene_world []))
     = Inl ZeroDivisionError
   \<and> fst (get_sampler_args_for_scene_split (class_attrs 6) 0 0 1 (Some []) False (scene_world []))
     \<noteq> Inl IndexError"
  using get_sampler_args_fails [OF list_at_scene_world, of "[]" 1 "class_attrs 6" 0 "Some []" False]
  by simp

section \<open>Beyond the 32-bit range\<close>

text \<open>
  The boundary array is cast to \<^verbatim>\<open>np.int32\<close>.  From \<open>2 ^ 31\<close> scenes on, the last boundary
  is no longer the length of the scene list.
\<close>

lemma partition_inds_samples:
  assumes "0 < p" and "0 < n" and "n < 2 ^ 53"
  shows "partition_inds n (int p) =
           Inr (map (\<lambda>i. astype_int32 (rint (sample n p i))) [0..<Suc p])"
  unfolding partition_inds_def linspace_samples [OF assms]
  by (simp only: sum.case map_map comp_def)

lemma slice_to_negative_bound:
  assumes "0 \<le> lo" and "hi + int (length xs) \<le> 0"
  shows "py_slice xs (Some lo) (Some hi) = []"
proof -
  have "hi < 0 \<or> xs = []" using assms(2) by (cases xs) auto
  then show ?thesis
    using assms by (auto simp: py_slice_def slice_bound_def Let_def)
qed

lemma single_process_gets_nothing:
  assumes "list_at w a = Some xs" and "int (length xs) = 2147483648"
  shows "partition_inds (int (length xs)) 1 = Inr [0, - 2147483648]"
    and "assigned_scenes cls a 0 1 w = Some []"
proof -
  define n where "n = int (length xs)"
  have n: "n = 2147483648" using assms(2) by (simp add: n_def)
  have n0: "0 < n" and n53: "n < 2 ^ 53" using n by simp_all
  have u: "[0..<Suc (Suc 0)] = [0, Suc 0]" by simp
  have b0: "astype_int32 (rint (sample n (Suc 0) 0)) = 0"
    using rint_of_int [of 0] by (simp add: sample_0 astype_int32_def)
  have "rint (sample n (Suc 0) (Suc 0)) = n"
    unfolding sample_last by (rule rint_of_int)
  then have b1: "astype_int32 (rint (sample n (Suc 0) (Suc 0))) = - 2147483648"
    by (simp add: astype_int32_def n)
  have "partition_inds n (int (Suc 0)) =
          Inr (map (\<lambda>i. astype_int32 (rint (sample n (Suc 0) i))) [0..<Suc (Suc 0)])"
    by (rule partition_inds_samples [OF _ n0 n53]) simp
  then have "partition_inds n 1 = Inr [0, - 2147483648]"
    unfolding u by (simp add: b0 b1)
  then show pi: "partition_inds (int (length xs)) 1 = Inr [0, - 2147483648]"
    by (simp add: n_def)
  have sp: "scenes_for_processes a 1 w = (Inr a, w)"
    using scenes_for_processes_keep [OF assms(1), of 1] assms(2) by simp
  have g0: "py_getitem [0, - 2147483648 :: int] 0 = Inr 0" by (simp add: py_getitem_def)
  have g1: "py_getitem [0, - 2147483648 :: int] (0 + 1) = Inr (- 2147483648)"
    by (simp add: py_getitem_def)
  have sl: "py_slice xs (Some 0) (Some (- 2147483648)) = []"
    by (rule slice_to_negative_bound) (simp_all add: assms(2))
  show "assigned_scenes cls a 0 1 w = Some []"
    using assigned_scenes_returns [OF sp assms(1) pi g0 g1, of cls] by (simp add: sl)
qed

text \<open>
  Claim C1 fails for a list of \<open>2 ^ 31\<close> scenes and one process: the boundaries are
  \<open>[0, - 2 ^ 31]\<close> and the process is handed the empty list.
\<close>

theorem one_process_loses_all_scenes:
  "length (replicate 2147483648 ''s0'') = 2147483648
   \<and> partition_inds (int (length (replicate 2147483648 ''s0''))) 1 = Inr [0, - 2147483648]
   \<and> assigned_scenes (class_attrs 6) 0 0 1 (scene_world (replicate 2147483648 ''s0'')) = Some []"
proof -
  have l: "int (length (replicate 2147483648 ''s0'')) = 2147483648"
    by (simp only: length_replicate)
  have h: "list_at (scene_world (replicate 2147483648 ''s0'')) 0
             = Some (replicate 2147483648 ''s0'')"
    by (rule list_at_scene_world)
  show ?thesis
    using single_process_gets_nothing(1) [OF h l]
      single_process_gets_nothing(2) [OF h l, of "class_attrs 6"]
    by (simp only: length_replicate simp_thms)
qed



end
